theory Spec2Isabelle
  imports Complex_Main "HOL-Library.Word"
begin

unbundle bit_operations_syntax

section \<open>Go values used by package pdb\<close>

text \<open>
  The package parses a page-based multistream file (MSF) held in memory. The model
  follows \<^verbatim>\<open>pdb.go\<close> function by function. Go's \<^verbatim>\<open>int\<close> is taken to be 64 bits wide
  (amd64) and logging to standard error is left out. A run-time panic and a returned
  \<^verbatim>\<open>error\<close> are both values of \<open>error\<close>; the constructor \<open>Panic\<close> tells them
  apart. \<open>OutOfMemory\<close> is the fatal error of the runtime when it cannot provide an
  array: the process ends. It stands with the panics, since neither is a return value.
\<close>

type_synonym byte = "8 word"

datatype panic =
    SliceBoundsOutOfRange
  | IndexOutOfRange
  | MakeSliceLenOutOfRange
  | NegativeShiftAmount
  | NilDereference
  | OutOfMemory

datatype error =
    EOF
  | ErrUnexpectedEOF
  | InvalidMSFSignature
  | ReadFileError
  | Panic panic

fun is_panic :: "error \<Rightarrow> bool" where
  "is_panic (Panic p) = True"
| "is_panic e = False"

text \<open>
  A Go slice is a window on a backing array: \<open>elems\<close> are the \<^verbatim>\<open>len\<close> elements it
  shows, \<open>spare\<close> the elements of the array behind them, up to the capacity.
  A slice expression \<^verbatim>\<open>s[lo:hi]\<close> on a slice is checked against the capacity, an index
  expression \<^verbatim>\<open>s[i]\<close> against the length.
\<close>

record 'a slice =
  elems :: "'a list"
  spare :: "'a list"

definition nil_slice :: "'a slice" where
  "nil_slice = \<lparr>elems = [], spare = []\<rparr>"

definition cap :: "'a slice \<Rightarrow> nat" where
  "cap s = length (elems s) + length (spare s)"

definition reslice :: "'a slice \<Rightarrow> int \<Rightarrow> int \<Rightarrow> error + 'a slice" where
  "reslice s lo hi =
     (let whole = elems s @ spare s in
      if 0 \<le> lo \<and> lo \<le> hi \<and> hi \<le> int (length whole)
      then Inr \<lparr>elems = take (nat (hi - lo)) (drop (nat lo) whole),
                spare = drop (nat hi) whole\<rparr>
      else Inl (Panic SliceBoundsOutOfRange))"

text \<open>
  \<^verbatim>\<open>append(s, xs...)\<close> writes into the spare capacity when \<open>xs\<close> fits; otherwise the
  runtime allocates a zeroed array that holds the result and as many further elements as
  it likes. That number is the runtime's choice (\<^verbatim>\<open>growslice\<close>), so it is the
  parameter \<open>slack\<close>, applied to the old capacity and the length needed.
\<close>

definition append_slice :: "(nat \<Rightarrow> nat \<Rightarrow> nat) \<Rightarrow> byte slice \<Rightarrow> byte list \<Rightarrow> byte slice" where
  "append_slice slack s xs =
     (if length xs \<le> length (spare s)
      then \<lparr>elems = elems s @ xs, spare = drop (length xs) (spare s)\<rparr>
      else \<lparr>elems = elems s @ xs,
            spare = replicate (slack (cap s) (length (elems s) + length xs)) 0\<rparr>)"

text \<open>
  The arrays that \<^verbatim>\<open>parseStreamTable\<close> makes have lengths read from the input, and they
  are allocated before their bytes are read. Whether the runtime provides an array of
  \<open>b\<close> bytes is not decided by the source: it is the parameter \<open>mem\<close>. An array of no
  bytes is not allocated at all. Every other allocation is taken to succeed.
\<close>

definition can_allocate :: "(nat \<Rightarrow> bool) \<Rightarrow> nat \<Rightarrow> bool" where
  "can_allocate mem b = (b = 0 \<or> mem b)"

text \<open>Arithmetic on \<^verbatim>\<open>int\<close> wraps around at 64 bits.\<close>

definition int64 :: "int \<Rightarrow> int" where
  "int64 x = (x + 2 ^ 63) mod 2 ^ 64 - 2 ^ 63"

text \<open>\<^verbatim>\<open>/\<close> and \<^verbatim>\<open>%\<close> on integers truncate towards zero.\<close>

definition go_quot :: "int \<Rightarrow> int \<Rightarrow> int" where
  "go_quot a b = sgn a * sgn b * (\<bar>a\<bar> div \<bar>b\<bar>)"

definition go_rem :: "int \<Rightarrow> int \<Rightarrow> int" where
  "go_rem a b = a - b * go_quot a b"

text \<open>
  \<^verbatim>\<open>int(math.Ceil(float64(size) / float64(pageSize)))\<close> for two \<^verbatim>\<open>int32\<close> values.
  Both convert to \<^verbatim>\<open>float64\<close> exactly. When the quotient is not an integer it lies at
  least \<open>1 / \<bar>pageSize\<bar>\<close> from the nearest one, more than the rounding error of the
  division (at most \<open>2 ^ 31 / \<bar>pageSize\<bar> * 2 ^ -53\<close>), so \<^verbatim>\<open>math.Ceil\<close> returns the
  ceiling of the exact quotient. For \<open>pageSize = 0\<close> the quotient is NaN or infinite; Go
  leaves the conversion of such a value to \<^verbatim>\<open>int\<close> to the implementation, and on amd64
  it gives the smallest \<^verbatim>\<open>int64\<close>.
\<close>

definition ceil_pages :: "int \<Rightarrow> int \<Rightarrow> int" where
  "ceil_pages sz pageSize =
     (if pageSize = 0 then - (2 ^ 63) else - ((- sz) div pageSize))"

section \<open>The data model\<close>

record StreamInfo =
  Size :: "32 word"
  Unknown :: "32 word"

record MSFHeader =
  Magic :: "byte list"
  PageSize :: "32 word"
  FreePageMapPageNum :: "16 word"
  NPages :: "16 word"
  StreamTblInfo :: StreamInfo
  PageNumMap :: "16 word list"

record FreePageMap =
  PageBits :: "byte slice"

record StreamTable =
  NStreams :: "32 word"
  StreamInfos :: "StreamInfo list"
  PageNumMaps :: "16 word list list"

text \<open>
  The three pointer fields of \<^verbatim>\<open>File\<close> are \<^verbatim>\<open>nil\<close> until \<^verbatim>\<open>ParseFile\<close> sets them.
  The type of a decoded stream (\<^verbatim>\<open>*PDBStream\<close>) is declared outside \<^verbatim>\<open>pdb.go\<close>; it is
  the type parameter \<open>'s\<close>.
\<close>

record 's File =
  FileHdr :: "MSFHeader option"
  FreePageMap :: "FreePageMap option"
  StreamTbl :: "StreamTable option"
  Streams :: "'s list"
  Data :: "byte slice"

section \<open>Reading from a byte cursor\<close>

text \<open>
  \<^verbatim>\<open>binary.Read(r, binary.LittleEndian, &v)\<close> on a \<^verbatim>\<open>bytes.Reader\<close>: the bytes of \<open>v\<close>
  are fetched with \<^verbatim>\<open>io.ReadFull\<close>, then decoded. The reader is the list of bytes not
  yet consumed. Reading no bytes succeeds, also at the end of the input; reading at the
  end gives \<^verbatim>\<open>io.EOF\<close>, reading past it \<^verbatim>\<open>io.ErrUnexpectedEOF\<close>.
\<close>

definition read_full :: "byte list \<Rightarrow> nat \<Rightarrow> error + (byte list \<times> byte list)" where
  "read_full r n =
     (if n = 0 then Inr ([], r)
      else if r = [] then Inl EOF
      else if length r < n then Inl ErrUnexpectedEOF
      else Inr (take n r, drop n r))"

definition le_uint16 :: "byte list \<Rightarrow> 16 word" where
  "le_uint16 b = ucast (b ! 0) OR push_bit 8 (ucast (b ! 1))"

definition le_uint32 :: "byte list \<Rightarrow> 32 word" where
  "le_uint32 b =
     ucast (b ! 0) OR push_bit 8 (ucast (b ! 1)) OR push_bit 16 (ucast (b ! 2))
       OR push_bit 24 (ucast (b ! 3))"

fun le_uint16s :: "byte list \<Rightarrow> 16 word list" where
  "le_uint16s (b0 # b1 # bs) = le_uint16 [b0, b1] # le_uint16s bs"
| "le_uint16s bs = []"

definition le_StreamInfo :: "byte list \<Rightarrow> StreamInfo" where
  "le_StreamInfo b = \<lparr>Size = le_uint32 (take 4 b), Unknown = le_uint32 (take 4 (drop 4 b))\<rparr>"

fun le_StreamInfos :: "nat \<Rightarrow> byte list \<Rightarrow> StreamInfo list" where
  "le_StreamInfos 0 b = []"
| "le_StreamInfos (Suc n) b = le_StreamInfo (take 8 b) # le_StreamInfos n (drop 8 b)"

section \<open>The functions of \<^verbatim>\<open>pdb.go\<close>\<close>

text \<open>The constant \<^verbatim>\<open>msfSignature\<close> (line 109): 37 characters, CR, LF and five more bytes.\<close>

definition msfSignature :: "byte list" where
  "msfSignature =
     map of_char ''Microsoft C/C++ program database 2.00'' @ [0x0D, 0x0A, 0x1A, 0x4A, 0x47, 0x00, 0x00]"

text \<open>
  \<^verbatim>\<open>readPage\<close> (lines 100 to 105). The product and the sum are computed in \<^verbatim>\<open>int\<close>;
  the slice expression panics unless \<open>0 \<le> start \<le> end \<le> cap(file.Data)\<close>.
\<close>

definition readPage :: "'s File \<Rightarrow> int \<Rightarrow> error + byte slice" where
  "readPage file pageNum =
     (case FileHdr file of
        None \<Rightarrow> Inl (Panic NilDereference)
      | Some hdr \<Rightarrow>
          (let pageSize = sint (PageSize hdr);
               start = int64 (pageNum * pageSize);
               stop = int64 (start + pageSize)
           in reslice (Data file) start stop))"

text \<open>
  \<^verbatim>\<open>parseMSFHeader\<close> (lines 135 to 169). The model also returns the reader, to show
  where the cursor stands afterwards. \<^verbatim>\<open>make\<close> panics on a negative length.
\<close>

definition parseMSFHeader :: "byte list \<Rightarrow> error + (MSFHeader \<times> byte list)" where
  "parseMSFHeader r0 =
     (case read_full r0 44 of Inl e \<Rightarrow> Inl e | Inr (magic, r1) \<Rightarrow>
     (if magic \<noteq> msfSignature then Inl InvalidMSFSignature else
     (case read_full r1 4 of Inl e \<Rightarrow> Inl e | Inr (bPageSize, r2) \<Rightarrow>
     (case read_full r2 2 of Inl e \<Rightarrow> Inl e | Inr (bFree, r3) \<Rightarrow>
     (case read_full r3 2 of Inl e \<Rightarrow> Inl e | Inr (bNPages, r4) \<Rightarrow>
     (case read_full r4 8 of Inl e \<Rightarrow> Inl e | Inr (bInfo, r5) \<Rightarrow>
     (let pageSize = le_uint32 bPageSize;
          info = le_StreamInfo bInfo;
          streamTblNPages = ceil_pages (sint (Size info)) (sint pageSize)
      in (if streamTblNPages < 0 then Inl (Panic MakeSliceLenOutOfRange) else
         (case read_full r5 (2 * nat streamTblNPages) of Inl e \<Rightarrow> Inl e | Inr (bMap, r6) \<Rightarrow>
          Inr (\<lparr>Magic = magic, PageSize = pageSize, FreePageMapPageNum = le_uint16 bFree,
                 NPages = le_uint16 bNPages, StreamTblInfo = info,
                 PageNumMap = le_uint16s bMap\<rparr>, r6))))))))))"

text \<open>
  \<^verbatim>\<open>IsFree\<close> (lines 194 to 199). The mask is computed first; a shift by a negative
  count panics. Then the bitmap is indexed.
\<close>

definition IsFree :: "FreePageMap \<Rightarrow> int \<Rightarrow> error + bool" where
  "IsFree fpm pageNum =
     (let i = go_quot pageNum 8;
          j = go_rem pageNum 8
      in if j < 0 then Inl (Panic NegativeShiftAmount)
         else let mask = push_bit (nat j) (1 :: byte)
              in if i < 0 \<or> int (length (elems (PageBits fpm))) \<le> i
                 then Inl (Panic IndexOutOfRange)
                 else Inr (elems (PageBits fpm) ! nat i AND mask \<noteq> 0))"

text \<open>
  \<^verbatim>\<open>readStreamTable\<close> (lines 237 to 246): the loop counts up to the number of pages
  computed from the declared size and indexes the page-index list of the header.
\<close>

function readStreamTable_loop ::
  "(nat \<Rightarrow> nat \<Rightarrow> nat) \<Rightarrow> 's File \<Rightarrow> MSFHeader \<Rightarrow> int \<Rightarrow> nat \<Rightarrow> byte slice \<Rightarrow> error + byte slice" where
  "readStreamTable_loop slack file hdr streamTblNPages streamPageNum streamTblData =
     (if int streamPageNum < streamTblNPages
      then if length (PageNumMap hdr) \<le> streamPageNum then Inl (Panic IndexOutOfRange)
           else case readPage file (uint (PageNumMap hdr ! streamPageNum)) of
                  Inl e \<Rightarrow> Inl e
                | Inr pageData \<Rightarrow>
                    readStreamTable_loop slack file hdr streamTblNPages (Suc streamPageNum)
                      (append_slice slack streamTblData (elems pageData))
      else Inr streamTblData)"
  by pat_completeness auto
termination
  by (relation "measure (\<lambda>(slack, file, hdr, n, i, acc). nat (n - int i))") auto

definition readStreamTable :: "(nat \<Rightarrow> nat \<Rightarrow> nat) \<Rightarrow> 's File \<Rightarrow> error + byte slice" where
  "readStreamTable slack file =
     (case FileHdr file of
        None \<Rightarrow> Inl (Panic NilDereference)
      | Some hdr \<Rightarrow>
          (let streamTblNPages =
                 ceil_pages (sint (Size (StreamTblInfo hdr))) (sint (PageSize hdr))
           in case readStreamTable_loop slack file hdr streamTblNPages 0 nil_slice of
                Inl e \<Rightarrow> Inl e
              | Inr streamTblData \<Rightarrow> reslice streamTblData 0 (sint (Size (StreamTblInfo hdr)))))"

text \<open>
  \<^verbatim>\<open>parseStreamTable\<close> (lines 249 to 270): the stream count, the descriptors, then the
  loop over the streams, which reads the page size of the header in each iteration.
  \<^verbatim>\<open>make\<close> allocates the descriptors (8 bytes each), the list of page-index lists (a
  slice header of 24 bytes each) and each page-index list (2 bytes an entry), after it has
  checked that the length is not negative; \<^verbatim>\<open>binary.Read\<close> allocates a buffer of the
  size of the array it fills, a second request of the same size.
\<close>

fun parsePageNumMaps ::
  "(nat \<Rightarrow> bool) \<Rightarrow> int \<Rightarrow> StreamInfo list \<Rightarrow> byte list \<Rightarrow> error + (16 word list list \<times> byte list)" where
  "parsePageNumMaps mem pageSize [] r = Inr ([], r)"
| "parsePageNumMaps mem pageSize (info # infos) r =
     (let streamNPages = ceil_pages (sint (Size info)) pageSize
      in (if streamNPages < 0 then Inl (Panic MakeSliceLenOutOfRange) else
         (if \<not> can_allocate mem (2 * nat streamNPages) then Inl (Panic OutOfMemory) else
         (case read_full r (2 * nat streamNPages) of Inl e \<Rightarrow> Inl e | Inr (bMap, r') \<Rightarrow>
         (case parsePageNumMaps mem pageSize infos r' of Inl e \<Rightarrow> Inl e | Inr (maps, r'') \<Rightarrow>
          Inr (le_uint16s bMap # maps, r''))))))"

definition parseStreamTable ::
  "(nat \<Rightarrow> bool) \<Rightarrow> 's File \<Rightarrow> byte list \<Rightarrow> error + (StreamTable \<times> byte list)" where
  "parseStreamTable mem file r0 =
     (case read_full r0 4 of Inl e \<Rightarrow> Inl e | Inr (bN, r1) \<Rightarrow>
     (let nStreams = le_uint32 bN in
     (if \<not> can_allocate mem (8 * unat nStreams) then Inl (Panic OutOfMemory) else
     (case read_full r1 (8 * unat nStreams) of Inl e \<Rightarrow> Inl e | Inr (bInfos, r2) \<Rightarrow>
     (let infos = le_StreamInfos (unat nStreams) bInfos in
     (if \<not> can_allocate mem (24 * unat nStreams) then Inl (Panic OutOfMemory) else
     (case FileHdr file of
        None \<Rightarrow> (if infos = [] then Inr (\<lparr>NStreams = nStreams, StreamInfos = infos, PageNumMaps = []\<rparr>, r2)
                  else Inl (Panic NilDereference))
      | Some hdr \<Rightarrow>
          (case parsePageNumMaps mem (sint (PageSize hdr)) infos r2 of
             Inl e \<Rightarrow> Inl e
           | Inr (maps, r3) \<Rightarrow>
               Inr (\<lparr>NStreams = nStreams, StreamInfos = infos, PageNumMaps = maps\<rparr>, r3)))))))))"

text \<open>
  \<^verbatim>\<open>readStreamData\<close> (lines 282 to 292): two index expressions, the loop over the
  page-index list of the stream, and the cut at the declared size.
\<close>

fun readStreamData_loop ::
  "(nat \<Rightarrow> nat \<Rightarrow> nat) \<Rightarrow> 's File \<Rightarrow> 16 word list \<Rightarrow> byte slice \<Rightarrow> error + byte slice" where
  "readStreamData_loop slack file [] streamData = Inr streamData"
| "readStreamData_loop slack file (pageNum # pageNumMap) streamData =
     (case readPage file (uint pageNum) of
        Inl e \<Rightarrow> Inl e
      | Inr pageData \<Rightarrow>
          readStreamData_loop slack file pageNumMap (append_slice slack streamData (elems pageData)))"

definition readStreamData :: "(nat \<Rightarrow> nat \<Rightarrow> nat) \<Rightarrow> 's File \<Rightarrow> int \<Rightarrow> error + byte slice" where
  "readStreamData slack file streamNum =
     (case StreamTbl file of
        None \<Rightarrow> Inl (Panic NilDereference)
      | Some tbl \<Rightarrow>
          if streamNum < 0 \<or> int (length (StreamInfos tbl)) \<le> streamNum
          then Inl (Panic IndexOutOfRange)
          else if int (length (PageNumMaps tbl)) \<le> streamNum
          then Inl (Panic IndexOutOfRange)
          else
            (let streamInfo = StreamInfos tbl ! nat streamNum;
                 pageNumMap = PageNumMaps tbl ! nat streamNum
             in case readStreamData_loop slack file pageNumMap nil_slice of
                  Inl e \<Rightarrow> Inl e
                | Inr streamData \<Rightarrow> reslice streamData 0 (sint (Size streamInfo))))"

text \<open>
  \<^verbatim>\<open>parseStream\<close> (lines 305 to 322). \<^verbatim>\<open>parsePDBStream\<close> is defined outside
  \<^verbatim>\<open>pdb.go\<close>. It is the parameter \<open>parsePDBStream\<close>: it receives the file and the bytes
  of the reader, and returns a decoded stream or an error (or panics); it is taken not to
  modify the file. The result \<open>Inr\<close> is the file after a nil error.
\<close>

definition parseStream ::
  "(nat \<Rightarrow> nat \<Rightarrow> nat) \<Rightarrow> ('s File \<Rightarrow> byte list \<Rightarrow> error + 's) \<Rightarrow> 's File \<Rightarrow> int \<Rightarrow> error + 's File" where
  "parseStream slack parsePDBStream file streamNum =
     (case readStreamData slack file streamNum of
        Inl e \<Rightarrow> Inl e
      | Inr streamData \<Rightarrow>
          if streamNum mod 2 ^ 32 = 1
          then (case parsePDBStream file (elems streamData) of
                  Inl e \<Rightarrow> Inl e
                | Inr pdbStream \<Rightarrow> Inr (file\<lparr>Streams := Streams file @ [pdbStream]\<rparr>))
          else Inr file)"

text \<open>
  \<^verbatim>\<open>ParseFile\<close> (lines 65 to 97). Its loop (lines 93 to 95) drops the error that
  \<^verbatim>\<open>parseStream\<close> returns; a panic is not a return value and ends the call.
\<close>

function ParseFile_loop ::
  "(nat \<Rightarrow> nat \<Rightarrow> nat) \<Rightarrow> ('s File \<Rightarrow> byte list \<Rightarrow> error + 's) \<Rightarrow> nat \<Rightarrow> 's File \<Rightarrow> nat \<Rightarrow> error + 's File" where
  "ParseFile_loop slack parsePDBStream nStreams file streamNum =
     (if streamNum < nStreams
      then case parseStream slack parsePDBStream file (int streamNum) of
             Inl e \<Rightarrow>
               if is_panic e then Inl e
               else ParseFile_loop slack parsePDBStream nStreams file (Suc streamNum)
           | Inr file' \<Rightarrow> ParseFile_loop slack parsePDBStream nStreams file' (Suc streamNum)
      else Inr file)"
  by pat_completeness auto
termination
  by (relation "measure (\<lambda>(slack, dec, n, file, i). n - i)") auto

text \<open>
  The argument \<open>readFile\<close> is what \<^verbatim>\<open>ioutil.ReadFile(pdbPath)\<close> returned: an error, or
  the contents of the file as a slice (with the spare capacity the library left in it).
\<close>

definition ParseFile ::
  "(nat \<Rightarrow> bool) \<Rightarrow> (nat \<Rightarrow> nat \<Rightarrow> nat) \<Rightarrow> ('s File \<Rightarrow> byte list \<Rightarrow> error + 's) \<Rightarrow> error + byte slice \<Rightarrow> error + 's File" where
  "ParseFile mem slack parsePDBStream readFile =
     (case readFile of Inl e \<Rightarrow> Inl e | Inr buf \<Rightarrow>
     (case parseMSFHeader (elems buf) of Inl e \<Rightarrow> Inl e | Inr (msfHdr, r) \<Rightarrow>
     (let file1 = \<lparr>FileHdr = Some msfHdr, FreePageMap = None, StreamTbl = None,
                   Streams = [], Data = buf\<rparr>
      in (case readPage file1 (uint (FreePageMapPageNum msfHdr)) of Inl e \<Rightarrow> Inl e
          | Inr freePageMapData \<Rightarrow>
     (let file2 = file1\<lparr>FreePageMap := Some \<lparr>PageBits = freePageMapData\<rparr>\<rparr>
      in (case readStreamTable slack file2 of Inl e \<Rightarrow> Inl e | Inr streamTblData \<Rightarrow>
         (case parseStreamTable mem file2 (elems streamTblData) of Inl e \<Rightarrow> Inl e
          | Inr (streamTbl, r') \<Rightarrow>
            ParseFile_loop slack parsePDBStream (unat (NStreams streamTbl))
              (file2\<lparr>StreamTbl := Some streamTbl\<rparr>) 0)))))))"

section \<open>The layout and the validity the specification describes\<close>

text \<open>
  The byte layouts below are written from the specification's words (fixed field order,
  fixed widths, little-endian, fields packed without padding); the parsers above are
  compared with them.
\<close>

definition enc_uint16 :: "16 word \<Rightarrow> byte list" where
  "enc_uint16 w = [ucast w, ucast (drop_bit 8 w)]"

definition enc_uint32 :: "32 word \<Rightarrow> byte list" where
  "enc_uint32 w = [ucast w, ucast (drop_bit 8 w), ucast (drop_bit 16 w), ucast (drop_bit 24 w)]"

definition enc_StreamInfo :: "StreamInfo \<Rightarrow> byte list" where
  "enc_StreamInfo info = enc_uint32 (Size info) @ enc_uint32 (Unknown info)"

definition layout_superblock :: "MSFHeader \<Rightarrow> byte list" where
  "layout_superblock hdr =
     Magic hdr @ enc_uint32 (PageSize hdr) @ enc_uint16 (FreePageMapPageNum hdr)
       @ enc_uint16 (NPages hdr) @ enc_StreamInfo (StreamTblInfo hdr)
       @ concat (map enc_uint16 (PageNumMap hdr))"

definition layout_directory :: "StreamTable \<Rightarrow> byte list" where
  "layout_directory tbl =
     enc_uint32 (NStreams tbl) @ concat (map enc_StreamInfo (StreamInfos tbl))
       @ concat (map (\<lambda>pageNumMap. concat (map enc_uint16 pageNumMap)) (PageNumMaps tbl))"

text \<open>The number of pages that hold \<open>sz\<close> bytes: \<open>ceil (sz / pageSize)\<close>.\<close>

definition pages_needed :: "32 word \<Rightarrow> 32 word \<Rightarrow> int" where
  "pages_needed sz pageSize = \<lceil>real_of_int (sint sz) / real_of_int (sint pageSize)\<rceil>"

text \<open>
  A page number addresses a full page inside the buffer; \<open>buffer_page\<close> is the half-open
  byte range \<open>[p * pageSize, p * pageSize + pageSize)\<close> of the buffer.
\<close>

definition page_in_buffer :: "'s File \<Rightarrow> 16 word \<Rightarrow> bool" where
  "page_in_buffer file p =
     (case FileHdr file of
        None \<Rightarrow> False
      | Some hdr \<Rightarrow> (uint p + 1) * sint (PageSize hdr) \<le> int (length (elems (Data file))))"

definition buffer_page :: "'s File \<Rightarrow> 16 word \<Rightarrow> byte list" where
  "buffer_page file p =
     (case FileHdr file of
        None \<Rightarrow> []
      | Some hdr \<Rightarrow>
          take (nat (sint (PageSize hdr)))
            (drop (nat (uint p * sint (PageSize hdr))) (elems (Data file))))"

definition valid_stream :: "'s File \<Rightarrow> MSFHeader \<Rightarrow> StreamInfo \<times> 16 word list \<Rightarrow> bool" where
  "valid_stream file hdr st =
     (0 \<le> sint (Size (fst st))
      \<and> int (length (snd st)) = pages_needed (Size (fst st)) (PageSize hdr)
      \<and> list_all (page_in_buffer file) (snd st))"

definition valid_container :: "'s File \<Rightarrow> bool" where
  "valid_container file =
     (case FileHdr file of
        None \<Rightarrow> False
      | Some hdr \<Rightarrow>
          (case StreamTbl file of
             None \<Rightarrow> False
           | Some tbl \<Rightarrow>
               0 < sint (PageSize hdr)
               \<and> length (StreamInfos tbl) = unat (NStreams tbl)
               \<and> length (PageNumMaps tbl) = unat (NStreams tbl)
               \<and> list_all (valid_stream file hdr) (zip (StreamInfos tbl) (PageNumMaps tbl))))"

text \<open>
  A stream directory as the specification has it: as many descriptors as the stream count
  says, and for stream \<open>i\<close> a page-index list of \<open>ceil (size i / pageSize)\<close> entries.
\<close>

definition directory_fits :: "32 word \<Rightarrow> StreamTable \<Rightarrow> bool" where
  "directory_fits pageSize tbl =
     (length (StreamInfos tbl) = unat (NStreams tbl)
      \<and> list_all2 (\<lambda>info pageNumMap. int (length pageNumMap) = pages_needed (Size info) pageSize)
            (StreamInfos tbl) (PageNumMaps tbl))"

text \<open>The runtime provides every array the parser makes for a stream directory.\<close>

definition directory_allocated :: "(nat \<Rightarrow> bool) \<Rightarrow> StreamTable \<Rightarrow> bool" where
  "directory_allocated mem tbl =
     (can_allocate mem (8 * unat (NStreams tbl)) \<and> can_allocate mem (24 * unat (NStreams tbl))
      \<and> list_all (\<lambda>pageNumMap. can_allocate mem (2 * length pageNumMap)) (PageNumMaps tbl))"




text \<open>What \<^verbatim>\<open>readPage\<close> returns for a 16-bit page number, and whether it returns.\<close>

definition page_elems :: "'s File \<Rightarrow> 16 word \<Rightarrow> byte list" where
  "page_elems file p =
     (case readPage file (uint p) of Inl e \<Rightarrow> [] | Inr pageData \<Rightarrow> elems pageData)"

definition page_readable :: "'s File \<Rightarrow> 16 word \<Rightarrow> bool" where
  "page_readable file p =
     (case readPage file (uint p) of Inl e \<Rightarrow> False | Inr pageData \<Rightarrow> True)"

text \<open>Every page-index list has the length the parser computes from its descriptor.\<close>

definition maps_fit :: "int \<Rightarrow> StreamInfo list \<Rightarrow> 16 word list list \<Rightarrow> bool" where
  "maps_fit pageSize infos maps =
     list_all2 (\<lambda>info pageNumMap. int (length pageNumMap) = ceil_pages (sint (Size info)) pageSize)
       infos maps"

section \<open>Example containers\<close>

text \<open>A runtime that provides every array.\<close>

definition enough_memory :: "nat \<Rightarrow> bool" where
  "enough_memory b = True"

text \<open>A runtime that provides no array of more than 4096 bytes.\<close>

definition little_memory :: "nat \<Rightarrow> bool" where
  "little_memory b = (b \<le> 4096)"

text \<open>A runtime whose \<^verbatim>\<open>append\<close> allocates exactly the length needed.\<close>

definition exact_fit :: "nat \<Rightarrow> nat \<Rightarrow> nat" where
  "exact_fit c n = 0"

text \<open>A header-stream decoder that always returns an error.\<close>

definition failing_decoder :: "byte list File \<Rightarrow> byte list \<Rightarrow> error + byte list" where
  "failing_decoder f b = Inl ErrUnexpectedEOF"

text \<open>A header-stream decoder that keeps the bytes it is given.\<close>

definition raw_decoder :: "byte list File \<Rightarrow> byte list \<Rightarrow> error + byte list" where
  "raw_decoder f b = Inr b"

text \<open>
  A container of 13 pages of 8 bytes: the superblock on pages 0 to 8, the stream
  directory (22 bytes) on pages 9 to 11, and page 12 for stream 1. Stream 0 is empty,
  stream 1 has 3 bytes.
\<close>

definition two_stream_bytes :: "byte list" where
  "two_stream_bytes =
     msfSignature
     @ [8, 0, 0, 0,  1, 0,  13, 0,  22, 0, 0, 0,  0, 0, 0, 0,  9, 0, 10, 0, 11, 0]
     @ [0, 0, 0, 0, 0, 0]
     @ [2, 0, 0, 0,  0, 0, 0, 0, 0, 0, 0, 0,  3, 0, 0, 0, 0, 0, 0, 0,  12, 0,  0, 0]
     @ [0xAA, 0xBB, 0xCC, 0xDD, 0xEE, 0xFF, 1, 2]"

definition two_stream_hdr :: MSFHeader where
  "two_stream_hdr =
     \<lparr>Magic = msfSignature, PageSize = 8, FreePageMapPageNum = 1, NPages = 13,
      StreamTblInfo = \<lparr>Size = 22, Unknown = 0\<rparr>, PageNumMap = [9, 10, 11]\<rparr>"

definition two_stream_tbl :: StreamTable where
  "two_stream_tbl =
     \<lparr>NStreams = 2, StreamInfos = [\<lparr>Size = 0, Unknown = 0\<rparr>, \<lparr>Size = 3, Unknown = 0\<rparr>],
      PageNumMaps = [[], [12]]\<rparr>"

definition two_stream_file :: "byte list File" where
  "two_stream_file =
     \<lparr>FileHdr = Some two_stream_hdr,
      FreePageMap = Some \<lparr>PageBits = \<lparr>elems = take 8 (drop 8 two_stream_bytes),
                                        spare = drop 16 two_stream_bytes\<rparr>\<rparr>,
      StreamTbl = Some two_stream_tbl,
      Streams = [],
      Data = \<lparr>elems = two_stream_bytes, spare = []\<rparr>\<rparr>"

text \<open>
  A container of 40 pages of 4 bytes with no streams: the superblock on pages 0 to 15,
  the stream directory on page 16, the free page map on page 17.
\<close>

definition small_page_bytes :: "byte list" where
  "small_page_bytes =
     msfSignature
     @ [4, 0, 0, 0,  17, 0,  40, 0,  4, 0, 0, 0,  0, 0, 0, 0,  16, 0]
     @ [0, 0]
     @ [0, 0, 0, 0]
     @ [0, 0, 0xFC, 0xFF]
     @ replicate 88 0"

definition small_page_hdr :: MSFHeader where
  "small_page_hdr =
     \<lparr>Magic = msfSignature, PageSize = 4, FreePageMapPageNum = 17, NPages = 40,
      StreamTblInfo = \<lparr>Size = 4, Unknown = 0\<rparr>, PageNumMap = [16]\<rparr>"

definition small_page_file :: "byte list File" where
  "small_page_file =
     \<lparr>FileHdr = Some small_page_hdr,
      FreePageMap = Some \<lparr>PageBits = \<lparr>elems = [0, 0, 0xFC, 0xFF], spare = replicate 88 0\<rparr>\<rparr>,
      StreamTbl = Some \<lparr>NStreams = 0, StreamInfos = [], PageNumMaps = []\<rparr>,
      Streams = [],
      Data = \<lparr>elems = small_page_bytes, spare = []\<rparr>\<rparr>"

text \<open>The two-stream container with the first byte of its magic altered.\<close>

definition altered_magic_bytes :: "byte list" where
  "altered_magic_bytes = two_stream_bytes[0 := 0x4E]"





section \<open>Readers and little-endian fields\<close>

text \<open>The two loops that count are unfolded by hand, one iteration at a time.\<close>

declare readStreamTable_loop.simps [simp del] ParseFile_loop.simps [simp del]

lemma read_full_append: "length a = n \<Longrightarrow> read_full (a @ r) n = Inr (a, r)"
  by (auto simp: read_full_def)

lemma read_full_Inr: "read_full r n = Inr (a, r') \<Longrightarrow> r = a @ r' \<and> length a = n"
  by (auto simp: read_full_def split: if_splits)



lemma byte_bit_high: "8 \<le> m \<Longrightarrow> \<not> bit (a :: byte) m"
  using bit_imp_le_length [of a m] by auto

lemma le_uint16_enc: "le_uint16 (enc_uint16 w) = w"
  unfolding le_uint16_def enc_uint16_def
  by (rule bit_word_eqI) (auto simp: bit_simps)

lemma le_uint32_enc: "le_uint32 (enc_uint32 w) = w"
  unfolding le_uint32_def enc_uint32_def
proof (rule bit_word_eqI)
  fix n assume "n < LENGTH(32)"
  then consider "n < 8" | "8 \<le> n" "n < 16" | "16 \<le> n" "n < 24" | "24 \<le> n" "n < 32"
    by fastforce
  then show "bit (ucast ([ucast w, ucast (drop_bit 8 w), ucast (drop_bit 16 w), ucast (drop_bit 24 w)] ! 0 :: byte)
        OR push_bit 8 (ucast ([ucast w, ucast (drop_bit 8 w), ucast (drop_bit 16 w), ucast (drop_bit 24 w)] ! 1 :: byte))
        OR push_bit 16 (ucast ([ucast w, ucast (drop_bit 8 w), ucast (drop_bit 16 w), ucast (drop_bit 24 w)] ! 2 :: byte))
        OR push_bit 24 (ucast ([ucast w, ucast (drop_bit 8 w), ucast (drop_bit 16 w), ucast (drop_bit 24 w)] ! 3 :: byte)) :: 32 word) n = bit w n"
    by cases (auto simp: bit_simps)
qed

lemma enc_le_uint16: "enc_uint16 (le_uint16 [a, b]) = [a, b]"
  unfolding le_uint16_def enc_uint16_def
  by (auto intro!: bit_word_eqI simp: bit_simps byte_bit_high)

lemma enc_le_uint32: "enc_uint32 (le_uint32 [a, b, c, d]) = [a, b, c, d]"
  unfolding le_uint32_def enc_uint32_def
  by (auto intro!: bit_word_eqI simp: bit_simps byte_bit_high)

lemma length_enc_uint16: "length (enc_uint16 w) = 2"
  by (simp add: enc_uint16_def)

lemma length_enc_uint32: "length (enc_uint32 w) = 4"
  by (simp add: enc_uint32_def)

lemma length_enc_StreamInfo: "length (enc_StreamInfo info) = 8"
  by (simp add: enc_StreamInfo_def enc_uint32_def)

lemma length_concat_enc_uint16: "length (concat (map enc_uint16 ws)) = 2 * length ws"
  by (induction ws) (auto simp: length_enc_uint16)

lemma length_concat_enc_StreamInfo:
  "length (concat (map enc_StreamInfo infos)) = 8 * length infos"
  by (induction infos) (auto simp: length_enc_StreamInfo)

lemma le_uint16s_enc: "le_uint16s (concat (map enc_uint16 ws)) = ws"
  by (induction ws) (auto simp: le_uint16_enc [unfolded enc_uint16_def] enc_uint16_def)

lemma enc_le_uint16s:
  "length b = 2 * k \<Longrightarrow> concat (map enc_uint16 (le_uint16s b)) = b \<and> length (le_uint16s b) = k"
proof (induction k arbitrary: b)
  case 0
  then show ?case by simp
next
  case (Suc k)
  from Suc.prems obtain b0 b' where b: "b = b0 # b'" by (cases b) auto
  with Suc.prems obtain b1 bs where b': "b' = b1 # bs" by (cases b') auto
  have "length bs = 2 * k" using Suc.prems b b' by simp
  from Suc.IH [OF this] show ?case by (simp add: b b' enc_le_uint16)
qed

lemma le_StreamInfo_enc: "le_StreamInfo (enc_StreamInfo info @ r) = info"
  by (simp add: le_StreamInfo_def enc_StreamInfo_def
      le_uint32_enc [unfolded enc_uint32_def] enc_uint32_def)

lemma le_StreamInfos_enc:
  "length infos = n \<Longrightarrow> le_StreamInfos n (concat (map enc_StreamInfo infos) @ r) = infos"
proof (induction infos arbitrary: n)
  case Nil
  then show ?case by simp
next
  case (Cons a infos)
  then obtain n' where n: "n = Suc n'" "length infos = n'" by (cases n) auto
  show ?case using Cons.IH [OF n(2)] n
    by (simp add: length_enc_StreamInfo le_StreamInfo_enc [of a "[]", simplified])
qed

lemma list4: "length (b :: 'a list) = 4 \<Longrightarrow> \<exists>b0 b1 b2 b3. b = [b0, b1, b2, b3]"
  by (cases b; simp; cases "tl b"; simp; cases "tl (tl b)"; simp; cases "tl (tl (tl b))"; simp)

lemma enc_le_uint32_list: "length b = 4 \<Longrightarrow> enc_uint32 (le_uint32 b) = b"
  using list4 [of b] enc_le_uint32 by auto

lemma enc_le_uint16_list: "length b = 2 \<Longrightarrow> enc_uint16 (le_uint16 b) = b"
  using enc_le_uint16s [of b 1] by (cases b; simp; cases "tl b"; simp add: enc_le_uint16)

lemma enc_le_StreamInfo: "length b = 8 \<Longrightarrow> enc_StreamInfo (le_StreamInfo b) = b"
  by (simp add: enc_StreamInfo_def le_StreamInfo_def enc_le_uint32_list)

lemma enc_le_StreamInfos:
  "length b = 8 * n \<Longrightarrow>
   concat (map enc_StreamInfo (le_StreamInfos n b)) = b \<and> length (le_StreamInfos n b) = n"
proof (induction n arbitrary: b)
  case 0
  then show ?case by simp
next
  case (Suc n)
  have "length (take 8 b) = 8" "length (drop 8 b) = 8 * n" using Suc.prems by auto
  then show ?case using Suc.IH [of "drop 8 b"] by (simp add: enc_le_StreamInfo)
qed

lemma ceil_pages_real:
  "b \<noteq> 0 \<Longrightarrow> ceil_pages a b = \<lceil>real_of_int a / real_of_int b\<rceil>"
  by (simp add: ceil_pages_def ceiling_divide_eq_div)

lemma ceil_pages_ceiling:
  "sint pageSize \<noteq> 0 \<Longrightarrow> ceil_pages (sint sz) (sint pageSize) = pages_needed sz pageSize"
  unfolding pages_needed_def by (rule ceil_pages_real)

section \<open>The parsers against the layouts\<close>

lemma length_msfSignature: "length msfSignature = 44"
  by (simp add: msfSignature_def)

lemma parseMSFHeader_layout:
  assumes "Magic h = msfSignature"
    and "int (length (PageNumMap h)) = ceil_pages (sint (Size (StreamTblInfo h))) (sint (PageSize h))"
  shows "parseMSFHeader (layout_superblock h @ rest) = Inr (h, rest)"
proof -
  have n: "nat (ceil_pages (sint (Size (StreamTblInfo h))) (sint (PageSize h))) = length (PageNumMap h)"
    and nn: "\<not> ceil_pages (sint (Size (StreamTblInfo h))) (sint (PageSize h)) < 0"
    using assms(2) by linarith+
  have m: "length (Magic h) = 44" using assms(1) length_msfSignature by simp
  show ?thesis
    unfolding parseMSFHeader_def layout_superblock_def
    using assms(1)
    by (simp add: read_full_append length_msfSignature length_enc_uint32 length_enc_uint16 length_enc_StreamInfo
        le_uint32_enc le_uint16_enc le_StreamInfo_enc [of _ "[]", simplified] n nn
        length_concat_enc_uint16 le_uint16s_enc Let_def)
qed

lemma parseMSFHeader_Inr:
  assumes "parseMSFHeader r = Inr (h, rest)"
  shows "r = layout_superblock h @ rest \<and> Magic h = msfSignature
     \<and> int (length (PageNumMap h)) = ceil_pages (sint (Size (StreamTblInfo h))) (sint (PageSize h))"
proof -
  from assms obtain magic r1 bP r2 bF r3 bN r4 bI r5 bM where
    1: "read_full r 44 = Inr (magic, r1)" and mg: "magic = msfSignature"
    and 2: "read_full r1 4 = Inr (bP, r2)"
    and 3: "read_full r2 2 = Inr (bF, r3)"
    and 4: "read_full r3 2 = Inr (bN, r4)"
    and 5: "read_full r4 8 = Inr (bI, r5)"
    and k: "\<not> ceil_pages (sint (Size (le_StreamInfo bI))) (sint (le_uint32 bP)) < 0"
    and 6: "read_full r5 (2 * nat (ceil_pages (sint (Size (le_StreamInfo bI))) (sint (le_uint32 bP)))) = Inr (bM, rest)"
    and h: "h = \<lparr>Magic = magic, PageSize = le_uint32 bP, FreePageMapPageNum = le_uint16 bF,
                 NPages = le_uint16 bN, StreamTblInfo = le_StreamInfo bI,
                 PageNumMap = le_uint16s bM\<rparr>"
    unfolding parseMSFHeader_def
    by (auto simp: Let_def split: sum.splits prod.splits if_splits)
  note R = read_full_Inr [OF 1] read_full_Inr [OF 2] read_full_Inr [OF 3] read_full_Inr [OF 4]
    read_full_Inr [OF 5] read_full_Inr [OF 6]
  have bM: "concat (map enc_uint16 (le_uint16s bM)) = bM"
    "length (le_uint16s bM) = nat (ceil_pages (sint (Size (le_StreamInfo bI))) (sint (le_uint32 bP)))"
    using enc_le_uint16s [of bM] R(6) by auto
  have "r = magic @ bP @ bF @ bN @ bI @ bM @ rest" using R by simp
  then show ?thesis
    using R bM k mg
    by (simp add: h layout_superblock_def enc_le_uint32_list enc_le_uint16_list enc_le_StreamInfo)
qed

lemma parsePageNumMaps_layout:
  "maps_fit ps infos maps \<Longrightarrow>
   list_all (\<lambda>m. can_allocate mem (2 * length m)) maps \<Longrightarrow>
   parsePageNumMaps mem ps infos (concat (map (\<lambda>m. concat (map enc_uint16 m)) maps) @ rest)
     = Inr (maps, rest)"
  unfolding maps_fit_def
proof (induction infos maps rule: list_all2_induct)
  case Nil
  then show ?case by simp
next
  case (Cons info infos m maps)
  have n: "nat (ceil_pages (sint (Size info)) ps) = length m"
    and nn: "\<not> ceil_pages (sint (Size info)) ps < 0"
    using Cons.hyps(1) by linarith+
  show ?case using Cons.IH Cons.prems
    by (simp add: n nn read_full_append length_concat_enc_uint16 le_uint16s_enc)
qed

lemma parsePageNumMaps_Inr:
  "parsePageNumMaps mem ps infos r = Inr (maps, rest) \<Longrightarrow>
   r = concat (map (\<lambda>m. concat (map enc_uint16 m)) maps) @ rest \<and> maps_fit ps infos maps
   \<and> list_all (\<lambda>m. can_allocate mem (2 * length m)) maps"
proof (induction infos arbitrary: r maps)
  case Nil
  then show ?case by (simp add: maps_fit_def)
next
  case (Cons info infos)
  let ?k = "ceil_pages (sint (Size info)) ps"
  from Cons.prems obtain bM r' maps' where
    k: "\<not> ?k < 0" and a: "can_allocate mem (2 * nat ?k)"
    and 1: "read_full r (2 * nat ?k) = Inr (bM, r')"
    and 2: "parsePageNumMaps mem ps infos r' = Inr (maps', rest)"
    and m: "maps = le_uint16s bM # maps'"
    by (auto simp: Let_def split: if_splits sum.splits prod.splits)
  note R = read_full_Inr [OF 1]
  have bM: "concat (map enc_uint16 (le_uint16s bM)) = bM" "length (le_uint16s bM) = nat ?k"
    using enc_le_uint16s [of bM] R by auto
  show ?case using Cons.IH [OF 2] R bM k a by (simp add: m maps_fit_def)
qed


lemma parseStreamTable_layout:
  assumes "FileHdr f = Some hdr"
    and "length (StreamInfos tbl) = unat (NStreams tbl)"
    and "maps_fit (sint (PageSize hdr)) (StreamInfos tbl) (PageNumMaps tbl)"
    and "directory_allocated mem tbl"
  shows "parseStreamTable mem f (layout_directory tbl @ rest) = Inr (tbl, rest)"
proof -
  have a: "can_allocate mem (8 * unat (NStreams tbl))" "can_allocate mem (24 * unat (NStreams tbl))"
    and l: "list_all (\<lambda>m. can_allocate mem (2 * length m)) (PageNumMaps tbl)"
    using assms(4) by (simp_all add: directory_allocated_def)
  show ?thesis
    unfolding parseStreamTable_def layout_directory_def
    using assms(1,2) a parsePageNumMaps_layout [OF assms(3) l, of rest]
      le_StreamInfos_enc [of "StreamInfos tbl" "unat (NStreams tbl)" "[]"]
    by (simp add: read_full_append length_enc_uint32 le_uint32_enc
        length_concat_enc_StreamInfo Let_def)
qed

lemma parseStreamTable_Inr:
  assumes "FileHdr f = Some hdr" and "parseStreamTable mem f r = Inr (tbl, rest)"
  shows "r = layout_directory tbl @ rest \<and> length (StreamInfos tbl) = unat (NStreams tbl)
     \<and> maps_fit (sint (PageSize hdr)) (StreamInfos tbl) (PageNumMaps tbl)
     \<and> directory_allocated mem tbl"
proof -
  from assms obtain bN r1 bI r2 maps where
    1: "read_full r 4 = Inr (bN, r1)"
    and a8: "can_allocate mem (8 * unat (le_uint32 bN))"
    and 2: "read_full r1 (8 * unat (le_uint32 bN)) = Inr (bI, r2)"
    and a24: "can_allocate mem (24 * unat (le_uint32 bN))"
    and 3: "parsePageNumMaps mem (sint (PageSize hdr)) (le_StreamInfos (unat (le_uint32 bN)) bI) r2
        = Inr (maps, rest)"
    and t: "tbl = \<lparr>NStreams = le_uint32 bN, StreamInfos = le_StreamInfos (unat (le_uint32 bN)) bI,
                   PageNumMaps = maps\<rparr>"
    unfolding parseStreamTable_def
    by (auto simp: Let_def split: sum.splits prod.splits if_splits)
  note R = read_full_Inr [OF 1] read_full_Inr [OF 2]
  note I = enc_le_StreamInfos [of bI "unat (le_uint32 bN)"]
  note P = parsePageNumMaps_Inr [OF 3]
  show ?thesis using R I P a8 a24
    by (simp add: t layout_directory_def enc_le_uint32_list directory_allocated_def)
qed



section \<open>Pages and streams\<close>

lemma int64_id: "- (2 ^ 63) \<le> x \<Longrightarrow> x < 2 ^ 63 \<Longrightarrow> int64 x = x"
  by (simp add: int64_def)

lemma sint32_abs: "\<bar>sint (w :: 32 word)\<bar> \<le> 2 ^ 31"
  using sint_ge [of w] sint_lt [of w] by simp

lemma page_product_bound:
  assumes "\<bar>n\<bar> \<le> 2 ^ 31"
  shows "- (2 ^ 63) \<le> n * sint (w :: 32 word) \<and> n * sint w < 2 ^ 63"
proof -
  have "\<bar>n * sint w\<bar> \<le> 2 ^ 31 * 2 ^ 31"
    unfolding abs_mult using assms sint32_abs [of w] by (intro mult_mono) auto
  then show ?thesis by auto
qed

lemma readPage_reslice:
  assumes "FileHdr file = Some hdr" and "0 \<le> n" and "n < 2 ^ 31"
  shows "readPage file n
     = reslice (Data file) (n * sint (PageSize hdr)) ((n + 1) * sint (PageSize hdr))"
proof -
  have 1: "int64 (n * sint (PageSize hdr)) = n * sint (PageSize hdr)"
    using page_product_bound [of n "PageSize hdr"] assms by (intro int64_id) auto
  have "int64 ((n + 1) * sint (PageSize hdr)) = (n + 1) * sint (PageSize hdr)"
    using page_product_bound [of "n + 1" "PageSize hdr"] assms by (intro int64_id) auto
  then have 2: "int64 (n * sint (PageSize hdr) + sint (PageSize hdr)) = (n + 1) * sint (PageSize hdr)"
    by (simp add: algebra_simps)
  show ?thesis using assms(1) by (simp add: readPage_def 1 2 Let_def)
qed

lemma uint16_range: "0 \<le> uint (p :: 16 word) \<and> uint p < 2 ^ 31"
  using uint_lt2p [of p] by auto

lemma readPage_uint:
  "FileHdr file = Some hdr \<Longrightarrow>
   readPage file (uint (p :: 16 word))
     = reslice (Data file) (uint p * sint (PageSize hdr)) ((uint p + 1) * sint (PageSize hdr))"
  using uint16_range [of p] by (intro readPage_reslice) auto

lemma reslice_Inr:
  "reslice s lo hi = Inr t \<Longrightarrow>
   0 \<le> lo \<and> lo \<le> hi \<and> hi \<le> int (cap s) \<and> int (length (elems t)) = hi - lo"
  by (auto simp: reslice_def cap_def Let_def split: if_splits)

lemma reslice_Inl: "reslice s lo hi = Inl e \<Longrightarrow> e = Panic SliceBoundsOutOfRange"
  by (auto simp: reslice_def Let_def split: if_splits)

lemma reslice_prefix:
  "0 \<le> hi \<Longrightarrow> hi \<le> int (length (elems s)) \<Longrightarrow>
   \<exists>t. reslice s 0 hi = Inr t \<and> elems t = take (nat hi) (elems s)"
  by (auto simp: reslice_def Let_def)

lemma readPage_Inr_length:
  assumes "FileHdr file = Some hdr" and "readPage file (uint (p :: 16 word)) = Inr pg"
  shows "int (length (elems pg)) = sint (PageSize hdr) \<and> 0 \<le> sint (PageSize hdr)
    \<and> (uint p + 1) * sint (PageSize hdr) \<le> int (cap (Data file))"
  using reslice_Inr [of "Data file" "uint p * sint (PageSize hdr)" "(uint p + 1) * sint (PageSize hdr)" pg]
    assms by (simp add: readPage_uint algebra_simps)

lemma readPage_Inl:
  "readPage file n = Inl e \<Longrightarrow> e = Panic SliceBoundsOutOfRange \<or> e = Panic NilDereference"
  by (auto simp: readPage_def Let_def split: option.splits dest: reslice_Inl)

lemma readPage_in_buffer:
  assumes "FileHdr file = Some hdr" and "0 \<le> sint (PageSize hdr)" and "page_in_buffer file p"
  shows "\<exists>pg. readPage file (uint p) = Inr pg \<and> elems pg = buffer_page file p"
proof -
  let ?ps = "sint (PageSize hdr)"
  have le: "(uint p + 1) * ?ps \<le> int (length (elems (Data file)))"
    using assms by (simp add: page_in_buffer_def)
  have lo: "0 \<le> uint p * ?ps" using assms(2) by simp
  have lh: "uint p * ?ps \<le> (uint p + 1) * ?ps" using assms(2) by (simp add: algebra_simps)
  have d: "(uint p + 1) * ?ps - uint p * ?ps = ?ps" by (simp add: algebra_simps)
  have n: "nat (uint p * ?ps) + nat ?ps \<le> length (elems (Data file))"
    using le lo assms(2) by (simp add: algebra_simps nat_add_distrib [symmetric] nat_le_iff)
  show ?thesis
    using le lo lh assms(1) n
    by (simp add: readPage_uint reslice_def Let_def buffer_page_def d)
qed

lemma readPage_cong:
  "FileHdr f = FileHdr g \<Longrightarrow> Data f = Data g \<Longrightarrow> readPage f n = readPage g n"
  by (simp add: readPage_def split: option.splits)

lemma elems_append_slice: "elems (append_slice slack s xs) = elems s @ xs"
  by (simp add: append_slice_def)

lemma readStreamData_loop_cong:
  "FileHdr f = FileHdr g \<Longrightarrow> Data f = Data g \<Longrightarrow>
   readStreamData_loop slack f pns acc = readStreamData_loop slack g pns acc"
  by (induction pns arbitrary: acc) (auto simp: readPage_cong [of f g] split: sum.splits)

lemma readStreamData_loop_Inr:
  "list_all (page_readable file) pns \<Longrightarrow>
   \<exists>s. readStreamData_loop slack file pns acc = Inr s
     \<and> elems s = elems acc @ concat (map (page_elems file) pns)"
proof (induction pns arbitrary: acc)
  case Nil
  then show ?case by simp
next
  case (Cons p pns)
  then obtain pg where pg: "readPage file (uint p) = Inr pg"
    by (auto simp: page_readable_def split: sum.splits)
  from Cons.prems have "list_all (page_readable file) pns" by simp
  from Cons.IH [OF this, of "append_slice slack acc (elems pg)"] show ?case
    by (auto simp: pg page_elems_def elems_append_slice)
qed

lemma readStreamData_loop_Inl:
  "readStreamData_loop slack file pns acc = Inl e \<Longrightarrow>
   e = Panic SliceBoundsOutOfRange \<or> e = Panic NilDereference"
  by (induction pns arbitrary: acc) (auto split: sum.splits dest: readPage_Inl)

lemma readStreamData_Inl: "readStreamData slack file n = Inl e \<Longrightarrow> is_panic e"
  by (auto simp: readStreamData_def Let_def split: option.splits if_splits sum.splits
      dest: readStreamData_loop_Inl reslice_Inl)

lemma readStreamData_cong:
  "FileHdr f = FileHdr g \<Longrightarrow> Data f = Data g \<Longrightarrow> StreamTbl f = StreamTbl g \<Longrightarrow>
   readStreamData slack f n = readStreamData slack g n"
  by (simp add: readStreamData_def readStreamData_loop_cong [of f g] Let_def split: option.splits)

lemma length_concat_pages:
  assumes "FileHdr file = Some hdr" and "list_all (page_readable file) pns"
  shows "int (length (concat (map (page_elems file) pns))) = int (length pns) * sint (PageSize hdr)"
  using assms(2)
proof (induction pns)
  case Nil
  then show ?case by simp
next
  case (Cons p pns)
  then obtain pg where pg: "readPage file (uint p) = Inr pg"
    by (auto simp: page_readable_def split: sum.splits)
  have "int (length (page_elems file p)) = sint (PageSize hdr)"
    using readPage_Inr_length [OF assms(1) pg] by (simp add: page_elems_def pg)
  then show ?case using Cons by (simp add: algebra_simps)
qed

section \<open>The load as a whole\<close>

lemma readStreamTable_loop_eq:
  "n = int (length (PageNumMap hdr)) \<Longrightarrow> i \<le> length (PageNumMap hdr) \<Longrightarrow>
   readStreamTable_loop slack f hdr n i acc
     = readStreamData_loop slack f (drop i (PageNumMap hdr)) acc"
proof (induction slack f hdr n i acc rule: readStreamTable_loop.induct)
  case (1 slack f hdr n i acc)
  show ?case
  proof (cases "i < length (PageNumMap hdr)")
    case True
    then have d: "drop i (PageNumMap hdr) = PageNumMap hdr ! i # drop (Suc i) (PageNumMap hdr)"
      by (simp add: Cons_nth_drop_Suc)
    show ?thesis
      using True "1.prems" "1.IH"
      by (subst readStreamTable_loop.simps) (auto simp: d split: sum.splits)
  next
    case False
    then show ?thesis using "1.prems"
      by (subst readStreamTable_loop.simps) auto
  qed
qed

lemma readStreamTable_eq:
  assumes "FileHdr f = Some hdr"
    and "int (length (PageNumMap hdr)) = ceil_pages (sint (Size (StreamTblInfo hdr))) (sint (PageSize hdr))"
  shows "readStreamTable slack f =
     (case readStreamData_loop slack f (PageNumMap hdr) nil_slice of
        Inl e \<Rightarrow> Inl e
      | Inr d \<Rightarrow> reslice d 0 (sint (Size (StreamTblInfo hdr))))"
proof -
  have "readStreamTable_loop slack f hdr
          (ceil_pages (sint (Size (StreamTblInfo hdr))) (sint (PageSize hdr))) 0 nil_slice
        = readStreamData_loop slack f (drop 0 (PageNumMap hdr)) nil_slice"
    using assms(2) by (intro readStreamTable_loop_eq) auto
  then show ?thesis using assms(1) by (simp add: readStreamTable_def Let_def)
qed

lemma readStreamTable_cong:
  assumes "FileHdr f = Some hdr" and "FileHdr g = Some hdr" and "Data f = Data g"
    and "int (length (PageNumMap hdr)) = ceil_pages (sint (Size (StreamTblInfo hdr))) (sint (PageSize hdr))"
  shows "readStreamTable slack f = readStreamTable slack g"
  using assms readStreamData_loop_cong [of f g slack "PageNumMap hdr" nil_slice]
  by (simp add: readStreamTable_eq [OF assms(1) assms(4)] readStreamTable_eq [OF assms(2) assms(4)])

lemma parseStreamTable_cong:
  "FileHdr f = FileHdr g \<Longrightarrow> parseStreamTable mem f r = parseStreamTable mem g r"
  by (simp add: parseStreamTable_def Let_def split: sum.splits prod.splits)

lemma parseStream_Inr:
  "parseStream slack dec f n = Inr f' \<Longrightarrow>
   FileHdr f' = FileHdr f \<and> FreePageMap f' = FreePageMap f \<and> StreamTbl f' = StreamTbl f
   \<and> Data f' = Data f \<and> (\<exists>s. readStreamData slack f n = Inr s)"
  by (auto simp: parseStream_def split: sum.splits if_splits)

lemma parseStream_Inl:
  "parseStream slack dec f n = Inl e \<Longrightarrow> \<not> is_panic e \<Longrightarrow> \<exists>s. readStreamData slack f n = Inr s"
  by (auto simp: parseStream_def split: sum.splits if_splits dest: readStreamData_Inl)

lemma ParseFile_loop_Inr:
  "ParseFile_loop slack dec n f i = Inr f' \<Longrightarrow>
   FileHdr f' = FileHdr f \<and> FreePageMap f' = FreePageMap f \<and> StreamTbl f' = StreamTbl f
   \<and> Data f' = Data f
   \<and> (\<forall>j. i \<le> j \<and> j < n \<longrightarrow> (\<exists>s. readStreamData slack f (int j) = Inr s))"
proof (induction slack dec n f i rule: ParseFile_loop.induct)
  case (1 slack dec n f i)
  show ?case
  proof (cases "i < n")
    case False
    then show ?thesis using "1.prems" by (subst (asm) ParseFile_loop.simps) auto
  next
    case True
    note lt = this
    show ?thesis
    proof (cases "parseStream slack dec f (int i)")
      case (Inl e)
      have np: "\<not> is_panic e" and r: "ParseFile_loop slack dec n f (Suc i) = Inr f'"
        using "1.prems" lt Inl by (subst (asm) ParseFile_loop.simps, simp split: if_splits)+
      have here: "\<exists>s. readStreamData slack f (int i) = Inr s"
        using parseStream_Inl [OF Inl np] .
      have rest: "\<forall>j. Suc i \<le> j \<and> j < n \<longrightarrow> (\<exists>s. readStreamData slack f (int j) = Inr s)"
        and same: "FileHdr f' = FileHdr f \<and> FreePageMap f' = FreePageMap f
          \<and> StreamTbl f' = StreamTbl f \<and> Data f' = Data f"
        using "1.IH"(1) [OF lt Inl np r] by auto
      show ?thesis
      proof (intro conjI allI impI)
        fix j assume "i \<le> j \<and> j < n"
        then show "\<exists>s. readStreamData slack f (int j) = Inr s"
          using here rest by (cases "j = i") auto
      qed (use same in auto)
    next
      case (Inr f1)
      have r: "ParseFile_loop slack dec n f1 (Suc i) = Inr f'"
        using "1.prems" lt Inr by (subst (asm) ParseFile_loop.simps) simp
      note P = parseStream_Inr [OF Inr]
      have rest: "\<forall>j. Suc i \<le> j \<and> j < n \<longrightarrow> (\<exists>s. readStreamData slack f1 (int j) = Inr s)"
        and same: "FileHdr f' = FileHdr f1 \<and> FreePageMap f' = FreePageMap f1
          \<and> StreamTbl f' = StreamTbl f1 \<and> Data f' = Data f1"
        using "1.IH"(2) [OF lt Inr r] by auto
      have c: "readStreamData slack f1 = readStreamData slack f"
        using P by (auto simp: fun_eq_iff intro: readStreamData_cong)
      show ?thesis
      proof (intro conjI allI impI)
        fix j assume "i \<le> j \<and> j < n"
        then show "\<exists>s. readStreamData slack f (int j) = Inr s"
          using P rest c by (cases "j = i") auto
      qed (use same P in auto)
    qed
  qed
qed

lemma ParseFile_loop_Inl: "ParseFile_loop slack dec n f i = Inl e \<Longrightarrow> is_panic e"
proof (induction slack dec n f i rule: ParseFile_loop.induct)
  case (1 slack dec n f i)
  show ?case
  proof (cases "i < n")
    case False
    then show ?thesis using "1.prems" by (subst (asm) ParseFile_loop.simps) auto
  next
    case True
    then show ?thesis using "1.prems" "1.IH"
      by (subst (asm) ParseFile_loop.simps) (auto split: sum.splits if_splits)
  qed
qed

lemma ParseFile_Inr:
  assumes "ParseFile mem slack dec rd = Inr f"
  shows "\<exists>buf hdr r pg td tbl r'.
     rd = Inr buf \<and> parseMSFHeader (elems buf) = Inr (hdr, r)
     \<and> FileHdr f = Some hdr \<and> Data f = buf
     \<and> readPage f (uint (FreePageMapPageNum hdr)) = Inr pg
     \<and> FreePageMap f = Some \<lparr>PageBits = pg\<rparr>
     \<and> readStreamTable slack f = Inr td
     \<and> parseStreamTable mem f (elems td) = Inr (tbl, r')
     \<and> StreamTbl f = Some tbl
     \<and> (\<forall>j<unat (NStreams tbl). \<exists>s. readStreamData slack f (int j) = Inr s)"
proof -
  from assms obtain buf where rd: "rd = Inr buf"
    by (auto simp: ParseFile_def split: sum.splits)
  from assms rd obtain hdr r where h: "parseMSFHeader (elems buf) = Inr (hdr, r)"
    by (auto simp: ParseFile_def split: sum.splits)
  let ?f1 = "\<lparr>FileHdr = Some hdr, FreePageMap = None, StreamTbl = None,
               Streams = [], Data = buf\<rparr> :: 'a File"
  from assms rd h obtain pg where pg: "readPage ?f1 (uint (FreePageMapPageNum hdr)) = Inr pg"
    by (auto simp: ParseFile_def Let_def split: sum.splits)
  let ?f2 = "?f1\<lparr>FreePageMap := Some \<lparr>PageBits = pg\<rparr>\<rparr>"
  from assms rd h pg obtain td where td: "readStreamTable slack ?f2 = Inr td"
    by (auto simp: ParseFile_def Let_def split: sum.splits)
  from assms rd h pg td obtain tbl r' where tb: "parseStreamTable mem ?f2 (elems td) = Inr (tbl, r')"
    by (auto simp: ParseFile_def Let_def split: sum.splits)
  let ?f3 = "?f2\<lparr>StreamTbl := Some tbl\<rparr>"
  from assms rd h pg td tb have lp: "ParseFile_loop slack dec (unat (NStreams tbl)) ?f3 0 = Inr f"
    by (simp add: ParseFile_def Let_def)
  note L = ParseFile_loop_Inr [OF lp]
  have fh: "FileHdr f = Some hdr" and fd: "Data f = buf" and ft: "StreamTbl f = Some tbl"
    and fm: "FreePageMap f = Some \<lparr>PageBits = pg\<rparr>"
    using L by simp_all
  note H = parseMSFHeader_Inr [OF h]
  have 1: "readPage f (uint (FreePageMapPageNum hdr)) = Inr pg"
    using pg readPage_cong [of f ?f1] fh fd by simp
  have 2: "readStreamTable slack f = Inr td"
    using td readStreamTable_cong [of f hdr ?f2 slack] fh fd H by simp
  have 3: "parseStreamTable mem f (elems td) = Inr (tbl, r')"
    using tb parseStreamTable_cong [of f ?f2 mem] fh by simp
  have 4: "\<forall>j<unat (NStreams tbl). \<exists>s. readStreamData slack f (int j) = Inr s"
    using L readStreamData_cong [of f ?f3 slack] fh fd ft by simp
  show ?thesis using rd h fh fd 1 fm 2 3 ft 4 by blast
qed

lemma ParseFile_Inl_not_panic:
  fixes dec dec' :: "'s File \<Rightarrow> byte list \<Rightarrow> error + 's"
  assumes "ParseFile mem slack dec rd = Inl e" and "\<not> is_panic e"
  shows "ParseFile mem slack dec' rd = Inl e"
  using assms
  by (auto simp: ParseFile_def Let_def split: sum.splits prod.splits dest: ParseFile_loop_Inl)

section \<open>The free page map\<close>

lemma go_quot_rem_nonneg: "0 \<le> n \<Longrightarrow> go_quot n 8 = n div 8 \<and> go_rem n 8 = n mod 8"
  by (cases "n = 0") (auto simp: go_quot_def go_rem_def minus_mult_div_eq_mod)

lemma go_quot_rem_neg:
  "n < 0 \<Longrightarrow> go_quot n 8 = - ((- n) div 8) \<and> go_rem n 8 = - ((- n) mod 8)"
  by (simp add: go_quot_def go_rem_def) presburger

lemma IsFree_nonneg:
  assumes "0 \<le> n"
  shows "IsFree fpm n =
     (if n div 8 < int (length (elems (PageBits fpm)))
      then Inr (bit (elems (PageBits fpm) ! nat (n div 8)) (nat (n mod 8)))
      else Inl (Panic IndexOutOfRange))"
proof -
  have "0 \<le> n div 8" "0 \<le> n mod 8" using assms by simp_all
  then show ?thesis
    using go_quot_rem_nonneg [OF assms]
    by (simp add: IsFree_def Let_def bit_iff_and_push_bit_not_eq_0 not_less)
qed

lemma IsFree_neg:
  assumes "n < 0"
  shows "IsFree fpm n
     = Inl (Panic (if n mod 8 = 0 then IndexOutOfRange else NegativeShiftAmount))"
proof (cases "n mod 8 = 0")
  case True
  then have z: "(- n) mod 8 = 0" by presburger
  have "(- n) div 8 > 0" using assms True by presburger
  then show ?thesis
    using go_quot_rem_neg [OF assms] z True by (simp add: IsFree_def Let_def)
next
  case False
  then have "(- n) mod 8 > 0" by presburger
  then show ?thesis
    using go_quot_rem_neg [OF assms] False by (simp add: IsFree_def Let_def)
qed

section \<open>Stream numbers out of range\<close>

lemma readStreamData_out_of_range:
  "StreamTbl f = Some tbl \<Longrightarrow> int (length (StreamInfos tbl)) \<le> n \<Longrightarrow>
   readStreamData slack f n = Inl (Panic IndexOutOfRange)"
  by (simp add: readStreamData_def)

section \<open>Errors of the stream decoder\<close>

lemma ParseFile_loop_failing:
  fixes failing :: "'s File \<Rightarrow> byte list \<Rightarrow> error + 's"
  assumes "\<forall>f b. \<exists>e. failing f b = Inl e \<and> \<not> is_panic e"
  shows "(\<forall>j. i \<le> j \<and> j < n \<longrightarrow> (\<exists>s. readStreamData slack g (int j) = Inr s)) \<Longrightarrow>
     ParseFile_loop slack failing n g i = Inr g"
proof (induction "n - i" arbitrary: i)
  case 0
  then show ?case by (subst ParseFile_loop.simps) simp
next
  case (Suc k)
  then have lt: "i < n" by simp
  from Suc.prems lt obtain s where s: "readStreamData slack g (int i) = Inr s" by blast
  have next_ok: "ParseFile_loop slack failing n g (Suc i) = Inr g"
    using Suc.hyps(1) [of "Suc i"] Suc.hyps(2) Suc.prems by simp
  obtain e where e: "failing g (elems s) = Inl e" "\<not> is_panic e" using assms by blast
  show ?case
  proof (cases "int i mod 2 ^ 32 = 1")
    case True
    then have "parseStream slack failing g (int i) = Inl e"
      by (simp add: parseStream_def s e)
    then show ?thesis using lt e next_ok by (subst ParseFile_loop.simps) simp
  next
    case False
    then have "parseStream slack failing g (int i) = Inr g"
      by (simp add: parseStream_def s)
    then show ?thesis using lt next_ok by (subst ParseFile_loop.simps) simp
  qed
qed

lemma ParseFile_Streams_dropped:
  fixes parsePDBStream failing :: "'s File \<Rightarrow> byte list \<Rightarrow> error + 's"
  assumes ok: "ParseFile mem slack parsePDBStream readFile = Inr file"
    and fl: "\<forall>f b. \<exists>e. failing f b = Inl e \<and> \<not> is_panic e"
  shows "ParseFile mem slack failing readFile = Inr (file\<lparr>Streams := []\<rparr>)"
proof -
  from ok obtain buf where rd: "readFile = Inr buf"
    by (auto simp: ParseFile_def split: sum.splits)
  from ok rd obtain hdr r where h: "parseMSFHeader (elems buf) = Inr (hdr, r)"
    by (auto simp: ParseFile_def split: sum.splits)
  let ?f1 = "\<lparr>FileHdr = Some hdr, FreePageMap = None, StreamTbl = None,
               Streams = [], Data = buf\<rparr> :: 's File"
  from ok rd h obtain pg where pg: "readPage ?f1 (uint (FreePageMapPageNum hdr)) = Inr pg"
    by (auto simp: ParseFile_def Let_def split: sum.splits)
  let ?f2 = "?f1\<lparr>FreePageMap := Some \<lparr>PageBits = pg\<rparr>\<rparr>"
  from ok rd h pg obtain td where td: "readStreamTable slack ?f2 = Inr td"
    by (auto simp: ParseFile_def Let_def split: sum.splits)
  from ok rd h pg td obtain tbl r' where tb: "parseStreamTable mem ?f2 (elems td) = Inr (tbl, r')"
    by (auto simp: ParseFile_def Let_def split: sum.splits)
  let ?f3 = "?f2\<lparr>StreamTbl := Some tbl\<rparr>"
  from ok rd h pg td tb
  have lp: "ParseFile_loop slack parsePDBStream (unat (NStreams tbl)) ?f3 0 = Inr file"
    by (simp add: ParseFile_def Let_def)
  note L = ParseFile_loop_Inr [OF lp]
  have eq: "file\<lparr>Streams := []\<rparr> = ?f3" using L by (intro File.equality) simp_all
  have "\<forall>j. 0 \<le> j \<and> j < unat (NStreams tbl) \<longrightarrow> (\<exists>s. readStreamData slack ?f3 (int j) = Inr s)"
    using L by blast
  from ParseFile_loop_failing [OF fl this]
  have "ParseFile_loop slack failing (unat (NStreams tbl)) ?f3 0 = Inr ?f3" .
  then have "ParseFile mem slack failing readFile = Inr ?f3"
    using rd h pg td tb by (simp add: ParseFile_def Let_def)
  then show ?thesis using eq by simp
qed

section \<open>Streams of a valid container\<close>

lemma ceil_pages_covers: "0 < ps \<Longrightarrow> sz \<le> ceil_pages sz ps * ps"
proof -
  assume ps: "0 < ps"
  have "(- sz) div ps * ps + (- sz) mod ps = - sz" by simp
  moreover have "0 \<le> (- sz) mod ps" using ps by simp
  ultimately have "(- sz) div ps * ps \<le> - sz" by linarith
  then show ?thesis using ps by (simp add: ceil_pages_def)
qed

lemma readStreamData_take:
  assumes "StreamTbl f = Some tbl" and "i < length (StreamInfos tbl)"
    and "i < length (PageNumMaps tbl)"
    and "list_all (page_readable f) (PageNumMaps tbl ! i)"
    and "0 \<le> sint (Size (StreamInfos tbl ! i))"
    and "sint (Size (StreamInfos tbl ! i))
          \<le> int (length (concat (map (page_elems f) (PageNumMaps tbl ! i))))"
  shows "\<exists>s. readStreamData slack f (int i) = Inr s
     \<and> elems s = take (nat (sint (Size (StreamInfos tbl ! i))))
                   (concat (map (page_elems f) (PageNumMaps tbl ! i)))"
proof -
  from readStreamData_loop_Inr [OF assms(4), of slack nil_slice]
  obtain d where d: "readStreamData_loop slack f (PageNumMaps tbl ! i) nil_slice = Inr d"
    and e: "elems d = concat (map (page_elems f) (PageNumMaps tbl ! i))"
    by (auto simp: nil_slice_def)
  from reslice_prefix [of "sint (Size (StreamInfos tbl ! i))" d] assms(5,6) e
  obtain t where "reslice d 0 (sint (Size (StreamInfos tbl ! i))) = Inr t"
    and "elems t = take (nat (sint (Size (StreamInfos tbl ! i)))) (elems d)"
    by auto
  then show ?thesis
    using assms(1,2,3) d e by (simp add: readStreamData_def Let_def)
qed

lemma page_in_buffer_readable:
  assumes "FileHdr f = Some hdr" and "0 \<le> sint (PageSize hdr)" and "page_in_buffer f p"
  shows "page_readable f p \<and> page_elems f p = buffer_page f p"
  using readPage_in_buffer [OF assms] by (auto simp: page_readable_def page_elems_def)

lemma length_layout_superblock:
  "Magic hdr = msfSignature \<Longrightarrow>
   length (layout_superblock hdr) = 60 + 2 * length (PageNumMap hdr)"
  by (simp add: layout_superblock_def length_msfSignature length_enc_uint32 length_enc_uint16
      length_enc_StreamInfo length_concat_enc_uint16)

section \<open>The stream directory\<close>

lemma maps_fit_pages_needed:
  "sint pageSize \<noteq> 0 \<Longrightarrow>
   maps_fit (sint pageSize) infos maps
     = list_all2 (\<lambda>info pageNumMap. int (length pageNumMap) = pages_needed (Size info) pageSize)
         infos maps"
  by (simp add: maps_fit_def ceil_pages_ceiling)

lemma readStreamTable_take:
  assumes h: "FileHdr f = Some hdr" and ps: "0 < sint (PageSize hdr)"
    and sz: "0 \<le> sint (Size (StreamTblInfo hdr))"
    and n: "int (length (PageNumMap hdr))
        = ceil_pages (sint (Size (StreamTblInfo hdr))) (sint (PageSize hdr))"
    and rd: "list_all (page_readable f) (PageNumMap hdr)"
  shows "\<exists>d. readStreamTable slack f = Inr d
     \<and> elems d = take (nat (sint (Size (StreamTblInfo hdr))))
                   (concat (map (page_elems f) (PageNumMap hdr)))
     \<and> int (length (elems d)) = sint (Size (StreamTblInfo hdr))"
proof -
  let ?sz = "sint (Size (StreamTblInfo hdr))" and ?pns = "PageNumMap hdr"
  from readStreamData_loop_Inr [OF rd, of slack nil_slice]
  obtain d where d: "readStreamData_loop slack f ?pns nil_slice = Inr d"
    and e: "elems d = concat (map (page_elems f) ?pns)"
    by (auto simp: nil_slice_def)
  have cover: "?sz \<le> int (length (elems d))"
    using ceil_pages_covers [OF ps, of ?sz] length_concat_pages [OF h rd] by (simp add: e n)
  from reslice_prefix [OF sz cover]
  obtain t where t: "reslice d 0 ?sz = Inr t" and te: "elems t = take (nat ?sz) (elems d)"
    by auto
  have "readStreamTable slack f = Inr t"
    by (simp add: readStreamTable_eq [OF h n] d t)
  moreover have "int (length (elems t)) = ?sz" using te cover sz by simp
  ultimately show ?thesis using te e by auto
qed

section \<open>A directory that is too short\<close>






section \<open>A directory page outside the buffer\<close>




section \<open>The claims\<close>

text \<open>
  C1. In a valid container (positive page size, as many descriptors and page-index lists
  as the stream count says, every size non-negative, every list of length
  \<open>ceil (size / pageSize)\<close>, every page number addressing a full page inside the buffer),
  \<^verbatim>\<open>readStreamData\<close> returns, for every stream number below the stream count, exactly
  the declared number of bytes: the pages of the stream, concatenated in list order and
  cut at the declared size. A stream with an empty page-index list gives no bytes.
\<close>

theorem C1_readStreamData_exact:
  assumes "valid_container file" and "StreamTbl file = Some tbl" and "i < unat (NStreams tbl)"
  shows "\<exists>streamData. readStreamData slack file (int i) = Inr streamData
     \<and> elems streamData
         = take (nat (sint (Size (StreamInfos tbl ! i))))
             (concat (map (buffer_page file) (PageNumMaps tbl ! i)))
     \<and> int (length (elems streamData)) = sint (Size (StreamInfos tbl ! i))
     \<and> (PageNumMaps tbl ! i = [] \<longrightarrow> elems streamData = [])"
proof -
  from assms(1,2) obtain hdr where h: "FileHdr file = Some hdr"
    and ps: "0 < sint (PageSize hdr)"
    and li: "length (StreamInfos tbl) = unat (NStreams tbl)"
    and lm: "length (PageNumMaps tbl) = unat (NStreams tbl)"
    and all: "list_all (valid_stream file hdr) (zip (StreamInfos tbl) (PageNumMaps tbl))"
    by (auto simp: valid_container_def split: option.splits)
  let ?info = "StreamInfos tbl ! i" and ?pns = "PageNumMaps tbl ! i"
  let ?sz = "sint (Size ?info)" and ?ps = "sint (PageSize hdr)"
  have "valid_stream file hdr (zip (StreamInfos tbl) (PageNumMaps tbl) ! i)"
    using all assms(3) li lm by (simp add: list_all_length)
  then have sz: "0 \<le> ?sz" and n: "int (length ?pns) = pages_needed (Size ?info) (PageSize hdr)"
    and inb: "list_all (page_in_buffer file) ?pns"
    using assms(3) li lm by (simp_all add: valid_stream_def)
  have n': "int (length ?pns) = ceil_pages ?sz ?ps"
    using n ps ceil_pages_ceiling [of "PageSize hdr" "Size ?info"] by simp
  have rd: "list_all (page_readable file) ?pns"
    and pe: "map (page_elems file) ?pns = map (buffer_page file) ?pns"
    using inb page_in_buffer_readable [OF h] ps by (auto simp: list_all_iff)
  have len: "int (length (concat (map (page_elems file) ?pns))) = int (length ?pns) * ?ps"
    using length_concat_pages [OF h rd] .
  have cover: "?sz \<le> int (length (concat (map (page_elems file) ?pns)))"
    using ceil_pages_covers [OF ps, of ?sz] by (simp add: len n')
  from readStreamData_take [of _ tbl i slack] assms(2,3) li lm rd sz cover
  obtain s where s: "readStreamData slack file (int i) = Inr s"
    and e: "elems s = take (nat ?sz) (concat (map (page_elems file) ?pns))"
    by auto
  have l: "int (length (elems s)) = ?sz" using e cover sz by simp
  show ?thesis using s e l by (auto simp: pe)
qed

theorem C1_readStreamData_exact_witness:
  "valid_container two_stream_file \<and> StreamTbl two_stream_file = Some two_stream_tbl
   \<and> (1 :: nat) < unat (NStreams two_stream_tbl) \<and> (0 :: nat) < unat (NStreams two_stream_tbl)
   \<and> (\<exists>streamData. readStreamData exact_fit two_stream_file (int 1) = Inr streamData
         \<and> elems streamData = [0xAA, 0xBB, 0xCC])
   \<and> (\<exists>streamData. readStreamData exact_fit two_stream_file (int 0) = Inr streamData
         \<and> elems streamData = [])"
proof -
  have v: "valid_container two_stream_file"
    by (simp add: valid_container_def two_stream_file_def two_stream_hdr_def two_stream_tbl_def
        valid_stream_def pages_needed_def page_in_buffer_def two_stream_bytes_def msfSignature_def)
  have t: "StreamTbl two_stream_file = Some two_stream_tbl" by (simp add: two_stream_file_def)
  have n: "(1 :: nat) < unat (NStreams two_stream_tbl)" "(0 :: nat) < unat (NStreams two_stream_tbl)"
    by (simp_all add: two_stream_tbl_def)
  have b: "take (nat (sint (Size (StreamInfos two_stream_tbl ! 1))))
             (concat (map (buffer_page two_stream_file) (PageNumMaps two_stream_tbl ! 1)))
           = [0xAA, 0xBB, 0xCC]"
    by (simp add: two_stream_tbl_def buffer_page_def two_stream_file_def two_stream_hdr_def
        two_stream_bytes_def msfSignature_def)
  have z: "PageNumMaps two_stream_tbl ! 0 = []" by (simp add: two_stream_tbl_def)
  show ?thesis
    using C1_readStreamData_exact [OF v t n(1), of exact_fit]
      C1_readStreamData_exact [OF v t n(2), of exact_fit] v t n b z
    by auto
qed

text \<open>
  C2. The stream directory is rebuilt in two phases. First \<^verbatim>\<open>readStreamTable\<close> appends,
  for each page number of the superblock's directory page-index list in order, that page,
  and cuts the concatenation at exactly the directory's declared size. Then
  \<^verbatim>\<open>parseStreamTable\<close> decodes the buffer in order: it succeeds on exactly the inputs that
  start with a 4-byte little-endian stream count, that many 8-byte descriptors without
  gaps, and for each stream in declared order \<open>ceil (size / pageSize)\<close> page-index entries
  of 2 bytes; it returns these and the bytes that follow. This is so when the runtime
  provides every array; in general the decoder returns on exactly those of these inputs for
  whose arrays the runtime has the memory.
\<close>

theorem C2_directory_two_phases:
  assumes "FileHdr file = Some hdr" and "0 < sint (PageSize hdr)"
  shows "(0 \<le> sint (Size (StreamTblInfo hdr))
          \<and> int (length (PageNumMap hdr))
              = pages_needed (Size (StreamTblInfo hdr)) (PageSize hdr)
          \<and> list_all (page_in_buffer file) (PageNumMap hdr)
        \<longrightarrow> (\<exists>streamTblData. readStreamTable slack file = Inr streamTblData
              \<and> elems streamTblData
                  = take (nat (sint (Size (StreamTblInfo hdr))))
                      (concat (map (buffer_page file) (PageNumMap hdr)))
              \<and> int (length (elems streamTblData)) = sint (Size (StreamTblInfo hdr))))
     \<and> ((parseStreamTable enough_memory file r = Inr (tbl, rest))
          = (r = layout_directory tbl @ rest \<and> directory_fits (PageSize hdr) tbl))
     \<and> ((parseStreamTable mem file r = Inr (tbl, rest))
          = (r = layout_directory tbl @ rest \<and> directory_fits (PageSize hdr) tbl
             \<and> directory_allocated mem tbl))"
proof -
  have nz: "sint (PageSize hdr) \<noteq> 0" using assms(2) by simp
  have A: "\<exists>d. readStreamTable slack file = Inr d
              \<and> elems d = take (nat (sint (Size (StreamTblInfo hdr))))
                      (concat (map (buffer_page file) (PageNumMap hdr)))
              \<and> int (length (elems d)) = sint (Size (StreamTblInfo hdr))"
    if sz: "0 \<le> sint (Size (StreamTblInfo hdr))"
      and n: "int (length (PageNumMap hdr)) = pages_needed (Size (StreamTblInfo hdr)) (PageSize hdr)"
      and inb: "list_all (page_in_buffer file) (PageNumMap hdr)"
  proof -
    have n': "int (length (PageNumMap hdr))
        = ceil_pages (sint (Size (StreamTblInfo hdr))) (sint (PageSize hdr))"
      using n ceil_pages_ceiling [OF nz] by simp
    have rd: "list_all (page_readable file) (PageNumMap hdr)"
      and pe: "map (page_elems file) (PageNumMap hdr) = map (buffer_page file) (PageNumMap hdr)"
      using inb page_in_buffer_readable [OF assms(1)] assms(2) by (auto simp: list_all_iff)
    show ?thesis using readStreamTable_take [OF assms sz n' rd, of slack] by (simp add: pe)
  qed
  have C: "(parseStreamTable m file r = Inr (tbl, rest))
          = (r = layout_directory tbl @ rest \<and> directory_fits (PageSize hdr) tbl
             \<and> directory_allocated m tbl)" for m
    using parseStreamTable_Inr [OF assms(1), of m r tbl rest]
      parseStreamTable_layout [OF assms(1), of tbl m rest] maps_fit_pages_needed [OF nz]
    by (auto simp: directory_fits_def)
  have "directory_allocated enough_memory tbl"
    by (simp add: directory_allocated_def can_allocate_def enough_memory_def list_all_iff)
  then have B: "(parseStreamTable enough_memory file r = Inr (tbl, rest))
          = (r = layout_directory tbl @ rest \<and> directory_fits (PageSize hdr) tbl)"
    using C [of enough_memory] by simp
  show ?thesis using A B C [of mem] by blast
qed

theorem C2_directory_two_phases_witness:
  "FileHdr two_stream_file = Some two_stream_hdr \<and> 0 < sint (PageSize two_stream_hdr)
   \<and> readStreamTable exact_fit two_stream_file
       = Inr \<lparr>elems = take 22 (drop 72 two_stream_bytes), spare = [0, 0]\<rparr>
   \<and> take 22 (drop 72 two_stream_bytes) = layout_directory two_stream_tbl
   \<and> parseStreamTable enough_memory two_stream_file (take 22 (drop 72 two_stream_bytes))
       = Inr (two_stream_tbl, [])
   \<and> parseStreamTable little_memory two_stream_file (take 22 (drop 72 two_stream_bytes))
       = Inr (two_stream_tbl, [])"
proof -
  have h: "FileHdr two_stream_file = Some two_stream_hdr" by (simp add: two_stream_file_def)
  have p: "0 < sint (PageSize two_stream_hdr)" by (simp add: two_stream_hdr_def)
  note T = C2_directory_two_phases [OF h p, of exact_fit "take 22 (drop 72 two_stream_bytes)"
      two_stream_tbl "[]" little_memory]
  have l: "take 22 (drop 72 two_stream_bytes) = layout_directory two_stream_tbl"
    by (simp add: two_stream_bytes_def msfSignature_def layout_directory_def two_stream_tbl_def
        enc_uint32_def enc_uint16_def enc_StreamInfo_def)
  have f: "directory_fits (PageSize two_stream_hdr) two_stream_tbl"
    by (simp add: directory_fits_def two_stream_tbl_def two_stream_hdr_def pages_needed_def)
  have a: "directory_allocated little_memory two_stream_tbl"
    by (simp add: directory_allocated_def can_allocate_def little_memory_def two_stream_tbl_def)
  have 1: "parseStreamTable enough_memory two_stream_file (take 22 (drop 72 two_stream_bytes))
       = Inr (two_stream_tbl, [])"
    using T l f by simp
  have 3: "parseStreamTable little_memory two_stream_file (take 22 (drop 72 two_stream_bytes))
       = Inr (two_stream_tbl, [])"
    using T l f a by simp
  have pre: "0 \<le> sint (Size (StreamTblInfo two_stream_hdr))
          \<and> int (length (PageNumMap two_stream_hdr))
              = pages_needed (Size (StreamTblInfo two_stream_hdr)) (PageSize two_stream_hdr)
          \<and> list_all (page_in_buffer two_stream_file) (PageNumMap two_stream_hdr)"
    by (simp add: two_stream_hdr_def pages_needed_def page_in_buffer_def two_stream_file_def
        two_stream_bytes_def msfSignature_def)
  have c: "take (nat (sint (Size (StreamTblInfo two_stream_hdr))))
             (concat (map (buffer_page two_stream_file) (PageNumMap two_stream_hdr)))
           = take 22 (drop 72 two_stream_bytes)"
    by (simp add: two_stream_hdr_def buffer_page_def two_stream_file_def two_stream_bytes_def
        msfSignature_def)
  from T pre c obtain d where d: "readStreamTable exact_fit two_stream_file = Inr d"
    and e: "elems d = take 22 (drop 72 two_stream_bytes)"
    by auto
  have 2: "readStreamTable exact_fit two_stream_file
       = Inr \<lparr>elems = take 22 (drop 72 two_stream_bytes), spare = [0, 0]\<rparr>"
    by code_simp
  show ?thesis using h p 1 2 3 l by blast
qed

text \<open>
  C3, as the code has it. \<^verbatim>\<open>readPage\<close> has no error result. For a page number
  \<open>0 \<le> pageNum < 2 ^ 31\<close> (every 16-bit page number of a file is one) it returns the
  bytes \<open>[pageNum * pageSize, pageNum * pageSize + pageSize)\<close> when that range lies
  within the capacity of the buffer, and panics with a slice-bounds run-time error
  otherwise; when the range lies within the length of the buffer, the bytes are those of
  the buffer.
\<close>

theorem C3_readPage_range_or_panic:
  assumes "FileHdr file = Some hdr" and "0 \<le> pageNum" and "pageNum < 2 ^ 31"
  shows "readPage file pageNum =
     (if 0 \<le> sint (PageSize hdr) \<and> (pageNum + 1) * sint (PageSize hdr) \<le> int (cap (Data file))
      then Inr \<lparr>elems = take (nat (sint (PageSize hdr)))
                         (drop (nat (pageNum * sint (PageSize hdr)))
                            (elems (Data file) @ spare (Data file))),
                spare = drop (nat ((pageNum + 1) * sint (PageSize hdr)))
                          (elems (Data file) @ spare (Data file))\<rparr>
      else Inl (Panic SliceBoundsOutOfRange))
   \<and> (0 \<le> sint (PageSize hdr)
        \<and> (pageNum + 1) * sint (PageSize hdr) \<le> int (length (elems (Data file)))
      \<longrightarrow> (\<exists>pageData. readPage file pageNum = Inr pageData
            \<and> elems pageData = take (nat (sint (PageSize hdr)))
                 (drop (nat (pageNum * sint (PageSize hdr))) (elems (Data file)))))"
proof -
  let ?ps = "sint (PageSize hdr)"
  have d: "(pageNum + 1) * ?ps - pageNum * ?ps = ?ps" by (simp add: algebra_simps)
  have lo: "0 \<le> ?ps \<Longrightarrow> 0 \<le> pageNum * ?ps \<and> pageNum * ?ps \<le> (pageNum + 1) * ?ps"
    using assms(2) by (simp add: algebra_simps)
  have neg: "pageNum * ?ps \<le> (pageNum + 1) * ?ps \<Longrightarrow> 0 \<le> ?ps"
    by (simp add: algebra_simps)
  have A: "readPage file pageNum =
     (if 0 \<le> ?ps \<and> (pageNum + 1) * ?ps \<le> int (cap (Data file))
      then Inr \<lparr>elems = take (nat ?ps) (drop (nat (pageNum * ?ps)) (elems (Data file) @ spare (Data file))),
                spare = drop (nat ((pageNum + 1) * ?ps)) (elems (Data file) @ spare (Data file))\<rparr>
      else Inl (Panic SliceBoundsOutOfRange))"
    unfolding readPage_reslice [OF assms] reslice_def Let_def cap_def d
    using lo neg by auto
  have B: "\<exists>pageData. readPage file pageNum = Inr pageData
            \<and> elems pageData = take (nat ?ps) (drop (nat (pageNum * ?ps)) (elems (Data file)))"
    if ps: "0 \<le> ?ps" and le: "(pageNum + 1) * ?ps \<le> int (length (elems (Data file)))"
  proof -
    have n: "nat (pageNum * ?ps) + nat ?ps \<le> length (elems (Data file))"
      using le lo [OF ps] ps by (simp add: algebra_simps nat_add_distrib [symmetric] nat_le_iff)
    have "(pageNum + 1) * ?ps \<le> int (cap (Data file))" using le by (simp add: cap_def)
    then show ?thesis using A ps n by simp
  qed
  show ?thesis using A B by blast
qed

theorem C3_readPage_range_or_panic_witness:
  "FileHdr two_stream_file = Some two_stream_hdr \<and> (0 :: int) \<le> 12 \<and> (12 :: int) < 2 ^ 31
   \<and> readPage two_stream_file 12
       = Inr \<lparr>elems = [0xAA, 0xBB, 0xCC, 0xDD, 0xEE, 0xFF, 1, 2], spare = []\<rparr>
   \<and> readPage two_stream_file 13 = Inl (Panic SliceBoundsOutOfRange)"
proof -
  have h: "FileHdr two_stream_file = Some two_stream_hdr" by (simp add: two_stream_file_def)
  show ?thesis
    using C3_readPage_range_or_panic [OF h, of 12] C3_readPage_range_or_panic [OF h, of 13]
    by (simp add: two_stream_file_def two_stream_hdr_def two_stream_bytes_def msfSignature_def cap_def)
qed

text \<open>
  C3 as stated fails: the example buffer has 104 bytes, the range of page 1000 starts at
  byte 8000, and the call panics instead of returning a recoverable error.
\<close>

theorem C3_readPage_counterexample:
  "FileHdr two_stream_file = Some two_stream_hdr \<and> sint (PageSize two_stream_hdr) = 8
   \<and> length (elems (Data two_stream_file)) = 104 \<and> cap (Data two_stream_file) = 104
   \<and> readPage two_stream_file 1000 = Inl (Panic SliceBoundsOutOfRange)
   \<and> is_panic (Panic SliceBoundsOutOfRange)"
  by code_simp

text \<open>
  C4, as the code has it. \<^verbatim>\<open>readStreamData\<close> has no error result and no
  \<^verbatim>\<open>UnknownStreamError\<close>. On a loaded container, a stream number greater than or equal
  to the declared stream count makes it panic with an index-out-of-range run-time error;
  the call changes nothing in the container, and every stream number below the count is
  still read without a panic.
\<close>

theorem C4_readStreamData_out_of_range_panics:
  assumes "ParseFile mem slack parsePDBStream readFile = Inr file"
  shows "\<exists>tbl. StreamTbl file = Some tbl
     \<and> (\<forall>n. uint (NStreams tbl) \<le> n \<longrightarrow>
            readStreamData slack file n = Inl (Panic IndexOutOfRange))
     \<and> (\<forall>n. 0 \<le> n \<and> n < uint (NStreams tbl) \<longrightarrow>
            (\<exists>streamData. readStreamData slack file n = Inr streamData))"
proof -
  from ParseFile_Inr [OF assms] obtain hdr and td :: "byte slice" and tbl r' where
    h: "FileHdr file = Some hdr" and p: "parseStreamTable mem file (elems td) = Inr (tbl, r')"
    and t: "StreamTbl file = Some tbl"
    and r: "\<forall>j<unat (NStreams tbl). \<exists>s. readStreamData slack file (int j) = Inr s"
    by blast
  have len: "length (StreamInfos tbl) = unat (NStreams tbl)"
    using parseStreamTable_Inr [OF h p] by simp
  have out: "readStreamData slack file n = Inl (Panic IndexOutOfRange)"
    if "uint (NStreams tbl) \<le> n" for n
    using that len by (intro readStreamData_out_of_range [OF t]) simp
  have inside: "\<exists>s. readStreamData slack file n = Inr s"
    if "0 \<le> n \<and> n < uint (NStreams tbl)" for n
  proof -
    have "nat n < unat (NStreams tbl)" using that by (simp add: nat_less_iff)
    with r have "\<exists>s. readStreamData slack file (int (nat n)) = Inr s" by blast
    then show ?thesis using that by simp
  qed
  show ?thesis using t out inside by blast
qed

theorem C4_readStreamData_out_of_range_panics_witness:
  "ParseFile enough_memory exact_fit failing_decoder (Inr \<lparr>elems = two_stream_bytes, spare = []\<rparr>)
     = Inr two_stream_file
   \<and> StreamTbl two_stream_file = Some two_stream_tbl
   \<and> readStreamData exact_fit two_stream_file 5 = Inl (Panic IndexOutOfRange)"
proof -
  have l: "ParseFile enough_memory exact_fit failing_decoder (Inr \<lparr>elems = two_stream_bytes, spare = []\<rparr>)
     = Inr two_stream_file"
    by code_simp
  have t: "StreamTbl two_stream_file = Some two_stream_tbl" by (simp add: two_stream_file_def)
  from C4_readStreamData_out_of_range_panics [OF l] t
  have "\<forall>n. uint (NStreams two_stream_tbl) \<le> n \<longrightarrow>
     readStreamData exact_fit two_stream_file n = Inl (Panic IndexOutOfRange)"
    by auto
  then have "readStreamData exact_fit two_stream_file 5 = Inl (Panic IndexOutOfRange)"
    by (simp add: two_stream_tbl_def)
  with l t show ?thesis by simp
qed

text \<open>
  C4 as stated fails: on the loaded two-stream container, stream number 2 gives a panic,
  not a recoverable error.
\<close>

theorem C4_readStreamData_counterexample:
  "ParseFile enough_memory exact_fit failing_decoder (Inr \<lparr>elems = two_stream_bytes, spare = []\<rparr>)
     = Inr two_stream_file
   \<and> StreamTbl two_stream_file = Some two_stream_tbl \<and> uint (NStreams two_stream_tbl) = 2
   \<and> readStreamData exact_fit two_stream_file 2 = Inl (Panic IndexOutOfRange)
   \<and> is_panic (Panic IndexOutOfRange)"
  by code_simp




text \<open>
  C6. An input whose first 44 bytes are not the magic signature makes \<^verbatim>\<open>ParseFile\<close>
  return an error and no \<^verbatim>\<open>File\<close>: the signature error when 44 bytes are there but
  differ, the reader's end-of-input error when the input is shorter than 44 bytes. These
  are the errors the specification calls \<^verbatim>\<open>FormatError\<close>; none of them is a panic.
\<close>

theorem C6_magic_mismatch_fails:
  assumes "take 44 (elems buf) \<noteq> msfSignature"
  shows "ParseFile mem slack parsePDBStream (Inr buf)
     = Inl (if elems buf = [] then EOF
            else if length (elems buf) < 44 then ErrUnexpectedEOF
            else InvalidMSFSignature)"
  using assms
  by (simp add: ParseFile_def parseMSFHeader_def read_full_def)

theorem C6_magic_mismatch_fails_witness:
  "take 44 (elems \<lparr>elems = altered_magic_bytes, spare = []\<rparr>) \<noteq> msfSignature
   \<and> ParseFile enough_memory exact_fit failing_decoder (Inr \<lparr>elems = altered_magic_bytes, spare = []\<rparr>)
       = Inl InvalidMSFSignature"
  using C6_magic_mismatch_fails [of "\<lparr>elems = altered_magic_bytes, spare = []\<rparr>" enough_memory
      exact_fit failing_decoder]
  by (simp add: altered_magic_bytes_def two_stream_bytes_def msfSignature_def)

text \<open>
  C7. \<^verbatim>\<open>parseMSFHeader\<close> succeeds on exactly the inputs that start with the superblock
  layout: the 44-byte magic, the page size (4 bytes, read as a signed number), the
  free-page-map page number (2 bytes), the page count (2 bytes), the stream-directory
  descriptor (4-byte size and 4-byte reserved field), then \<open>ceil (size / pageSize)\<close> page
  indices of 2 bytes each, all little-endian and without gaps. It returns these fields and
  leaves the cursor right behind the last page index: no padding is consumed.
\<close>

theorem C7_superblock_layout:
  assumes "sint (PageSize hdr) \<noteq> 0"
  shows "(parseMSFHeader r = Inr (hdr, rest)) =
     (r = layout_superblock hdr @ rest \<and> Magic hdr = msfSignature
      \<and> int (length (PageNumMap hdr)) = pages_needed (Size (StreamTblInfo hdr)) (PageSize hdr))
   \<and> (Magic hdr = msfSignature \<longrightarrow>
        length (layout_superblock hdr) = 44 + 4 + 2 + 2 + 8 + 2 * length (PageNumMap hdr))"
proof -
  note c = ceil_pages_ceiling [OF assms, of "Size (StreamTblInfo hdr)"]
  have "parseMSFHeader r = Inr (hdr, rest) \<Longrightarrow>
     r = layout_superblock hdr @ rest \<and> Magic hdr = msfSignature
      \<and> int (length (PageNumMap hdr)) = pages_needed (Size (StreamTblInfo hdr)) (PageSize hdr)"
    using parseMSFHeader_Inr [of r hdr rest] c by simp
  moreover have "r = layout_superblock hdr @ rest \<and> Magic hdr = msfSignature
      \<and> int (length (PageNumMap hdr)) = pages_needed (Size (StreamTblInfo hdr)) (PageSize hdr)
     \<Longrightarrow> parseMSFHeader r = Inr (hdr, rest)"
    using parseMSFHeader_layout [of hdr rest] c by simp
  ultimately show ?thesis using length_layout_superblock [of hdr] by auto
qed

theorem C7_superblock_layout_witness:
  "sint (PageSize two_stream_hdr) \<noteq> 0
   \<and> two_stream_bytes = layout_superblock two_stream_hdr @ drop 66 two_stream_bytes
   \<and> parseMSFHeader two_stream_bytes = Inr (two_stream_hdr, drop 66 two_stream_bytes)
   \<and> take 6 (drop 66 two_stream_bytes) = [0, 0, 0, 0, 0, 0]"
proof -
  have p: "sint (PageSize two_stream_hdr) \<noteq> 0" by (simp add: two_stream_hdr_def)
  have m: "Magic two_stream_hdr = msfSignature" by (simp add: two_stream_hdr_def)
  have n: "int (length (PageNumMap two_stream_hdr))
      = pages_needed (Size (StreamTblInfo two_stream_hdr)) (PageSize two_stream_hdr)"
    by (simp add: two_stream_hdr_def pages_needed_def)
  have l: "two_stream_bytes = layout_superblock two_stream_hdr @ drop 66 two_stream_bytes"
    by (simp add: two_stream_bytes_def layout_superblock_def two_stream_hdr_def msfSignature_def
        enc_uint32_def enc_uint16_def enc_StreamInfo_def)
  have d: "take 6 (drop 66 two_stream_bytes) = [0, 0, 0, 0, 0, 0]"
    by (simp add: two_stream_bytes_def msfSignature_def)
  from C7_superblock_layout [OF p, of two_stream_bytes "drop 66 two_stream_bytes"] l m n
  have "parseMSFHeader two_stream_bytes = Inr (two_stream_hdr, drop 66 two_stream_bytes)"
    by blast
  then show ?thesis using p l d by blast
qed

text \<open>
  C8. \<^verbatim>\<open>ParseFile\<close> builds the free page map from one page, the one
  \<^verbatim>\<open>readPage\<close> returns for the superblock's free-page-map page number, stored as it is.
  \<^verbatim>\<open>IsFree\<close> returns true exactly when bit \<open>pageNum mod 8\<close> of bitmap byte
  \<open>pageNum div 8\<close> is 1, and false exactly when that bit is 0 (1 = free, 0 = in use);
  where the bitmap has no such byte it returns nothing.
\<close>

theorem C8_free_page_map:
  "(ParseFile mem slack parsePDBStream readFile = Inr file \<longrightarrow>
      (\<exists>hdr pageData. FileHdr file = Some hdr
         \<and> readPage file (uint (FreePageMapPageNum hdr)) = Inr pageData
         \<and> FreePageMap file = Some \<lparr>PageBits = pageData\<rparr>))
   \<and> (IsFree fpm pageNum = Inr True \<longleftrightarrow>
        0 \<le> pageNum \<and> pageNum div 8 < int (length (elems (PageBits fpm)))
        \<and> bit (elems (PageBits fpm) ! nat (pageNum div 8)) (nat (pageNum mod 8)))
   \<and> (IsFree fpm pageNum = Inr False \<longleftrightarrow>
        0 \<le> pageNum \<and> pageNum div 8 < int (length (elems (PageBits fpm)))
        \<and> \<not> bit (elems (PageBits fpm) ! nat (pageNum div 8)) (nat (pageNum mod 8)))"
proof -
  have A: "\<exists>hdr pageData. FileHdr file = Some hdr
         \<and> readPage file (uint (FreePageMapPageNum hdr)) = Inr pageData
         \<and> FreePageMap file = Some \<lparr>PageBits = pageData\<rparr>"
    if "ParseFile mem slack parsePDBStream readFile = Inr file"
    using ParseFile_Inr [OF that] by blast
  have B: "(IsFree fpm pageNum = Inr b) \<longleftrightarrow>
        (0 \<le> pageNum \<and> pageNum div 8 < int (length (elems (PageBits fpm)))
        \<and> b = bit (elems (PageBits fpm) ! nat (pageNum div 8)) (nat (pageNum mod 8)))" for b
  proof (cases "0 \<le> pageNum")
    case True
    then show ?thesis by (auto simp: IsFree_nonneg)
  next
    case False
    then show ?thesis using IsFree_neg [of pageNum fpm] by simp
  qed
  show ?thesis using A B [of True] B [of False] by blast
qed

theorem C8_free_page_map_witness:
  "ParseFile enough_memory exact_fit failing_decoder (Inr \<lparr>elems = small_page_bytes, spare = []\<rparr>)
     = Inr small_page_file
   \<and> FileHdr small_page_file = Some small_page_hdr
   \<and> readPage small_page_file (uint (FreePageMapPageNum small_page_hdr))
       = Inr \<lparr>elems = [0, 0, 0xFC, 0xFF], spare = replicate 88 0\<rparr>
   \<and> FreePageMap small_page_file
       = Some \<lparr>PageBits = \<lparr>elems = [0, 0, 0xFC, 0xFF], spare = replicate 88 0\<rparr>\<rparr>
   \<and> IsFree \<lparr>PageBits = \<lparr>elems = [0, 0, 0xFC, 0xFF], spare = replicate 88 0\<rparr>\<rparr> 18 = Inr True
   \<and> IsFree \<lparr>PageBits = \<lparr>elems = [0, 0, 0xFC, 0xFF], spare = replicate 88 0\<rparr>\<rparr> 17 = Inr False"
proof -
  let ?fpm = "\<lparr>PageBits = \<lparr>elems = [0, 0, 0xFC, 0xFF], spare = replicate 88 0\<rparr>\<rparr>"
  have l: "ParseFile enough_memory exact_fit failing_decoder (Inr \<lparr>elems = small_page_bytes, spare = []\<rparr>)
     = Inr small_page_file"
    by code_simp
  have h: "FileHdr small_page_file = Some small_page_hdr"
    and m: "FreePageMap small_page_file = Some ?fpm"
    by (simp_all add: small_page_file_def)
  note T = C8_free_page_map [of enough_memory exact_fit failing_decoder
      "Inr \<lparr>elems = small_page_bytes, spare = []\<rparr>" small_page_file ?fpm]
  have p: "readPage small_page_file (uint (FreePageMapPageNum small_page_hdr)) = Inr (PageBits ?fpm)"
    using T [of 18] l h m by auto
  have t: "IsFree ?fpm 18 = Inr True" using T [of 18] by simp
  have f: "IsFree ?fpm 17 = Inr False" using T [of 17] by simp
  show ?thesis using l h m p t f by simp
qed

text \<open>
  C9, as the code has it. On a loaded container the free-page-map page lies within the
  capacity of the buffer and the bitmap holds \<open>pageSize\<close> bytes. \<^verbatim>\<open>IsFree\<close> reads
  bitmap byte \<open>pageNum div 8\<close> for \<open>0 \<le> pageNum < 8 * pageSize\<close>. For a page number
  from \<open>8 * pageSize\<close> on, also one below the superblock's page count, the index is outside
  the bitmap and the bounds check of the run time panics. For a negative page number
  \<^verbatim>\<open>IsFree\<close> panics as well: on the negative shift count \<^verbatim>\<open>pageNum % 8\<close> when the page
  number is no multiple of 8 (for -7 to -1 the index \<^verbatim>\<open>pageNum / 8\<close> is 0, inside the
  bitmap, and the shift comes first), on the negative index otherwise. So nothing outside
  the bitmap is read.
\<close>

theorem C9_free_page_map_bounds:
  assumes "ParseFile mem slack parsePDBStream readFile = Inr file"
  shows "\<exists>hdr fpm. FileHdr file = Some hdr \<and> FreePageMap file = Some fpm
     \<and> 0 \<le> sint (PageSize hdr)
     \<and> (uint (FreePageMapPageNum hdr) + 1) * sint (PageSize hdr) \<le> int (cap (Data file))
     \<and> int (length (elems (PageBits fpm))) = sint (PageSize hdr)
     \<and> (\<forall>pageNum. 0 \<le> pageNum \<and> pageNum < 8 * sint (PageSize hdr) \<longrightarrow>
           IsFree fpm pageNum
             = Inr (bit (elems (PageBits fpm) ! nat (pageNum div 8)) (nat (pageNum mod 8))))
     \<and> (\<forall>pageNum. 8 * sint (PageSize hdr) \<le> pageNum \<longrightarrow>
           IsFree fpm pageNum = Inl (Panic IndexOutOfRange))
     \<and> (\<forall>pageNum. pageNum < 0 \<longrightarrow>
           IsFree fpm pageNum
             = Inl (Panic (if pageNum mod 8 = 0 then IndexOutOfRange else NegativeShiftAmount)))"
proof -
  from ParseFile_Inr [OF assms] obtain hdr and pg :: "byte slice" where
    h: "FileHdr file = Some hdr"
    and p: "readPage file (uint (FreePageMapPageNum hdr)) = Inr pg"
    and m: "FreePageMap file = Some \<lparr>PageBits = pg\<rparr>"
    by blast
  let ?fpm = "\<lparr>PageBits = pg\<rparr>"
  let ?ps = "sint (PageSize hdr)"
  note L = readPage_Inr_length [OF h p]
  have len: "int (length (elems (PageBits ?fpm))) = ?ps" using L by simp
  have inside: "IsFree ?fpm n = Inr (bit (elems (PageBits ?fpm) ! nat (n div 8)) (nat (n mod 8)))"
    if "0 \<le> n \<and> n < 8 * ?ps" for n
  proof -
    have "n div 8 < ?ps" using that by linarith
    then show ?thesis using that len by (simp add: IsFree_nonneg)
  qed
  have ps: "0 \<le> ?ps" using L by simp
  have above: "IsFree ?fpm n = Inl (Panic IndexOutOfRange)" if "8 * ?ps \<le> n" for n
  proof -
    have "0 \<le> n" using that ps by linarith
    moreover have "\<not> n div 8 < ?ps" using that by linarith
    ultimately show ?thesis using len by (simp add: IsFree_nonneg)
  qed
  have below: "IsFree ?fpm n
      = Inl (Panic (if n mod 8 = 0 then IndexOutOfRange else NegativeShiftAmount))"
    if "n < 0" for n
    using that by (rule IsFree_neg)
  show ?thesis using h m L len inside above below by blast
qed

theorem C9_free_page_map_bounds_witness:
  "ParseFile enough_memory exact_fit failing_decoder (Inr \<lparr>elems = small_page_bytes, spare = []\<rparr>)
     = Inr small_page_file
   \<and> IsFree \<lparr>PageBits = \<lparr>elems = [0, 0, 0xFC, 0xFF], spare = replicate 88 0\<rparr>\<rparr> 31 = Inr True
   \<and> IsFree \<lparr>PageBits = \<lparr>elems = [0, 0, 0xFC, 0xFF], spare = replicate 88 0\<rparr>\<rparr> 32
       = Inl (Panic IndexOutOfRange)
   \<and> IsFree \<lparr>PageBits = \<lparr>elems = [0, 0, 0xFC, 0xFF], spare = replicate 88 0\<rparr>\<rparr> (- 1)
       = Inl (Panic NegativeShiftAmount)
   \<and> IsFree \<lparr>PageBits = \<lparr>elems = [0, 0, 0xFC, 0xFF], spare = replicate 88 0\<rparr>\<rparr> (- 8)
       = Inl (Panic IndexOutOfRange)"
proof -
  let ?fpm = "\<lparr>PageBits = \<lparr>elems = [0, 0, 0xFC, 0xFF], spare = replicate 88 0\<rparr>\<rparr>"
  have l: "ParseFile enough_memory exact_fit failing_decoder (Inr \<lparr>elems = small_page_bytes, spare = []\<rparr>)
     = Inr small_page_file"
    by code_simp
  have h: "FileHdr small_page_file = Some small_page_hdr"
    and m: "FreePageMap small_page_file = Some ?fpm"
    and s: "sint (PageSize small_page_hdr) = 4"
    by (simp_all add: small_page_file_def small_page_hdr_def)
  from C9_free_page_map_bounds [OF l] h m s
  have i: "\<forall>pageNum. 0 \<le> pageNum \<and> pageNum < 8 * 4 \<longrightarrow>
           IsFree ?fpm pageNum
             = Inr (bit (elems (PageBits ?fpm) ! nat (pageNum div 8)) (nat (pageNum mod 8)))"
    and a: "\<forall>pageNum. 8 * 4 \<le> pageNum \<longrightarrow> IsFree ?fpm pageNum = Inl (Panic IndexOutOfRange)"
    and b: "\<forall>pageNum. pageNum < 0 \<longrightarrow>
           IsFree ?fpm pageNum
             = Inl (Panic (if pageNum mod 8 = 0 then IndexOutOfRange else NegativeShiftAmount))"
    by auto
  have "IsFree ?fpm 31 = Inr True" using i [rule_format, of 31] by simp
  moreover have "IsFree ?fpm 32 = Inl (Panic IndexOutOfRange)" using a [rule_format, of 32] by simp
  moreover have "IsFree ?fpm (- 1) = Inl (Panic NegativeShiftAmount)"
    using b [rule_format, of "- 1"] by simp
  moreover have "IsFree ?fpm (- 8) = Inl (Panic IndexOutOfRange)"
    using b [rule_format, of "- 8"] by simp
  ultimately show ?thesis using l by simp
qed

text \<open>
  C9 as stated fails: the container of 40 pages of 4 bytes loads, page number 39 is below
  its page count, and the bitmap index \<open>39 div 8 = 4\<close> is not within the 4-byte bitmap.
\<close>

theorem C9_free_page_map_counterexample:
  "ParseFile enough_memory exact_fit failing_decoder (Inr \<lparr>elems = small_page_bytes, spare = []\<rparr>)
     = Inr small_page_file
   \<and> FileHdr small_page_file = Some small_page_hdr
   \<and> uint (NPages small_page_hdr) = 40
   \<and> FreePageMap small_page_file
       = Some \<lparr>PageBits = \<lparr>elems = [0, 0, 0xFC, 0xFF], spare = replicate 88 0\<rparr>\<rparr>
   \<and> \<not> go_quot 39 8 < int (length [0, 0, 0xFC, 0xFF :: byte])
   \<and> IsFree \<lparr>PageBits = \<lparr>elems = [0, 0, 0xFC, 0xFF], spare = replicate 88 0\<rparr>\<rparr> 39
       = Inl (Panic IndexOutOfRange)"
  by code_simp

text \<open>
  C10. \<^verbatim>\<open>ParseFile\<close> drops the error \<^verbatim>\<open>parseStream\<close> returns: when the call for
  stream number \<open>k\<close> returns an error, the loop goes on with stream \<open>k + 1\<close> and the same
  \<^verbatim>\<open>File\<close>. So a container that loads with some header-stream decoder loads with a
  decoder that fails as well, to the same \<^verbatim>\<open>File\<close> with no decoded stream and a nil
  error; and an error that \<^verbatim>\<open>ParseFile\<close> does return never comes from decoding a
  stream, it is the same with every decoder.
\<close>

theorem C10_stream_errors_ignored:
  fixes parsePDBStream failing :: "'s File \<Rightarrow> byte list \<Rightarrow> error + 's"
  assumes "\<forall>f b. \<exists>e. failing f b = Inl e \<and> \<not> is_panic e"
  shows "(ParseFile mem slack parsePDBStream readFile = Inr file \<longrightarrow>
            ParseFile mem slack failing readFile = Inr (file\<lparr>Streams := []\<rparr>))
     \<and> (ParseFile mem slack failing readFile = Inl e \<and> \<not> is_panic e \<longrightarrow>
            ParseFile mem slack parsePDBStream readFile = Inl e)
     \<and> (parseStream slack parsePDBStream file (int k) = Inl e \<and> \<not> is_panic e \<and> k < n \<longrightarrow>
            ParseFile_loop slack parsePDBStream n file k
              = ParseFile_loop slack parsePDBStream n file (Suc k))"
proof -
  have A: "ParseFile mem slack failing readFile = Inr (file\<lparr>Streams := []\<rparr>)"
    if "ParseFile mem slack parsePDBStream readFile = Inr file"
    using ParseFile_Streams_dropped [OF that assms] .
  have B: "ParseFile mem slack parsePDBStream readFile = Inl e"
    if "ParseFile mem slack failing readFile = Inl e \<and> \<not> is_panic e"
    using ParseFile_Inl_not_panic [of mem slack failing readFile e parsePDBStream] that by simp
  have C: "ParseFile_loop slack parsePDBStream n file k
      = ParseFile_loop slack parsePDBStream n file (Suc k)"
    if "parseStream slack parsePDBStream file (int k) = Inl e \<and> \<not> is_panic e \<and> k < n"
    using that by (subst ParseFile_loop.simps) auto
  show ?thesis using A B C by blast
qed

theorem C10_stream_errors_ignored_witness:
  "(\<forall>f b. \<exists>e. failing_decoder f b = Inl e \<and> \<not> is_panic e)
   \<and> ParseFile enough_memory exact_fit raw_decoder (Inr \<lparr>elems = two_stream_bytes, spare = []\<rparr>)
       = Inr (two_stream_file\<lparr>Streams := [[0xAA, 0xBB, 0xCC]]\<rparr>)
   \<and> ParseFile enough_memory exact_fit failing_decoder (Inr \<lparr>elems = two_stream_bytes, spare = []\<rparr>)
       = Inr two_stream_file
   \<and> Streams two_stream_file = []"
proof -
  have f: "\<forall>f b. \<exists>e. failing_decoder f b = Inl e \<and> \<not> is_panic e"
    by (simp add: failing_decoder_def)
  have l: "ParseFile enough_memory exact_fit raw_decoder (Inr \<lparr>elems = two_stream_bytes, spare = []\<rparr>)
       = Inr (two_stream_file\<lparr>Streams := [[0xAA, 0xBB, 0xCC]]\<rparr>)"
    by code_simp
  have s: "two_stream_file\<lparr>Streams := [[0xAA, 0xBB, 0xCC]], Streams := []\<rparr> = two_stream_file"
    by (simp add: two_stream_file_def)
  from C10_stream_errors_ignored [OF f, of enough_memory exact_fit raw_decoder
      "Inr \<lparr>elems = two_stream_bytes, spare = []\<rparr>"
      "two_stream_file\<lparr>Streams := [[0xAA, 0xBB, 0xCC]]\<rparr>"] l s
  have "ParseFile enough_memory exact_fit failing_decoder (Inr \<lparr>elems = two_stream_bytes, spare = []\<rparr>)
       = Inr two_stream_file"
    by simp
  then show ?thesis using f l by (simp add: two_stream_file_def)
qed

end
